theory Spec2Isabelle
  imports Complex_Main "HOL-Library.AList"
begin

section \<open>The lesson progress tracker (lesson-tracker.js)\<close>

text \<open>
  A shallow embedding of the progress tracker of \<^verbatim>\<open>lesson-tracker.js\<close> (the later of the two
  versions of the script, the one with quiz-aware scoring and the question ledger): the
  module-wide \<^verbatim>\<open>trackerState\<close> object, the scorer \<^verbatim>\<open>calculateProgress\<close>, the reporter
  \<^verbatim>\<open>sendProgressUpdate\<close> and the public \<^verbatim>\<open>window.CAETTracker\<close> operations.

  Modelling decisions.
  \<^item> A JavaScript number is a real number or one of the three non-finite values. Addition,
    multiplication and division round their exact result to the nearest double (ties to the
    even significand, gradual underflow, overflow to an infinity), as IEEE 754 prescribes;
    the sign of zero is not modelled. Numbers handed in by the page (scores, percentages)
    are finite doubles, and the counters stay below \<open>2\<^sup>5\<^sup>3\<close>, where every integer is a
    double.
  \<^item> Strings are lists of 8-bit characters (code points below 256).
  \<^item> A plain object used as a dictionary is an association list of its own properties in
    insertion order; reading a property that is not an own property falls through to
    \<^verbatim>\<open>Object.prototype\<close>.
  \<^item> \<^verbatim>\<open>Date.now()\<close> is an argument \<open>now\<close> of every operation that reads the clock; the
    readings inside one synchronous call are taken to be the same instant.
  \<^item> Messages handed to \<^verbatim>\<open>sendToParent\<close> are appended to a log, whatever window receives
    them.
\<close>

subsection \<open>Numbers\<close>

datatype jsnum = Num real | PosInf | NegInf | NaN

text \<open>An infinity of the sign of \<open>s\<close>; \<open>NaN\<close> when \<open>s\<close> is zero.\<close>

definition signed_inf :: "real \<Rightarrow> jsnum" where
  "signed_inf s = (if s = 0 then NaN else if 0 < s then PosInf else NegInf)"

text \<open>
  The binary exponent of a positive real: the \<open>e\<close> with \<open>2\<^sup>e \<le> x < 2\<^sup>e\<^sup>+\<^sup>1\<close>, found by
  halving or doubling.
\<close>

function binaryExponent :: "real \<Rightarrow> int" where
  "binaryExponent x =
     (if x \<le> 0 then 0
      else if 2 \<le> x then binaryExponent (x / 2) + 1
      else if x < 1 then binaryExponent (x * 2) - 1
      else 0)"
  by pat_completeness auto
termination
proof (relation "measure (\<lambda>x. nat \<bar>\<lfloor>log 2 x\<rfloor>\<bar>)")
  show "wf (measure (\<lambda>x. nat \<bar>\<lfloor>log 2 x\<rfloor>\<bar>))" by simp
next
  fix x :: real
  assume "\<not> x \<le> 0" and "2 \<le> x"
  then have "log 2 (x / 2) = log 2 x - 1" and "1 \<le> log 2 x"
    by (simp_all add: log_divide le_log_iff)
  then have "\<lfloor>log 2 (x / 2)\<rfloor> = \<lfloor>log 2 x\<rfloor> - 1" and "1 \<le> \<lfloor>log 2 x\<rfloor>"
    by simp_all
  then show "(x / 2, x) \<in> measure (\<lambda>x. nat \<bar>\<lfloor>log 2 x\<rfloor>\<bar>)"
    by simp
next
  fix x :: real
  assume "\<not> x \<le> 0" and "\<not> 2 \<le> x" and "x < 1"
  then have "log 2 (x * 2) = log 2 x + 1" and "log 2 x < 0"
    by (simp_all add: log_mult)
  then have "\<lfloor>log 2 (x * 2)\<rfloor> = \<lfloor>log 2 x\<rfloor> + 1" and "\<lfloor>log 2 x\<rfloor> \<le> - 1"
    by (simp_all add: floor_le_iff)
  then show "(x * 2, x) \<in> measure (\<lambda>x. nat \<bar>\<lfloor>log 2 x\<rfloor>\<bar>)"
    by simp
qed

declare binaryExponent.simps [simp del]

text \<open>The nearest integer, a tie going to the even one.\<close>

definition roundHalfEven :: "real \<Rightarrow> int" where
  "roundHalfEven y =
     (let n = \<lfloor>y\<rfloor>; d = y - of_int n
      in if d < 1 / 2 then n else if 1 / 2 < d then n + 1 else if even n then n else n + 1)"

text \<open>
  The double nearest to a real. A double is an integer of at most 53 bits times a power of
  two; the exponent of a normal double lies between \<open>-1022\<close> and 1023, below that range the
  spacing stays \<open>2\<^sup>-\<^sup>1\<^sup>0\<^sup>7\<^sup>4\<close>, and a result that rounds to \<open>2\<^sup>1\<^sup>0\<^sup>2\<^sup>4\<close> or beyond is an
  infinity.
\<close>

definition toDouble :: "real \<Rightarrow> jsnum" where
  "toDouble x =
     (if x = 0 then Num 0
      else let e = max (binaryExponent \<bar>x\<bar>) (- 1022);
               q = 2 powi (e - 52);
               r = of_int (roundHalfEven (x / q)) * q
           in if e < 1023 then Num r
              else if 2 powi 1024 \<le> \<bar>r\<bar> then signed_inf x else Num r)"

text \<open>The arithmetic operators: the exact result of finite operands, rounded.\<close>

fun js_add :: "jsnum \<Rightarrow> jsnum \<Rightarrow> jsnum" where
  "js_add (Num a) (Num b) = toDouble (a + b)"
| "js_add NaN _ = NaN"
| "js_add _ NaN = NaN"
| "js_add PosInf NegInf = NaN"
| "js_add NegInf PosInf = NaN"
| "js_add PosInf _ = PosInf"
| "js_add _ PosInf = PosInf"
| "js_add NegInf _ = NegInf"
| "js_add _ NegInf = NegInf"

fun js_neg :: "jsnum \<Rightarrow> jsnum" where
  "js_neg (Num a) = Num (- a)"
| "js_neg PosInf = NegInf"
| "js_neg NegInf = PosInf"
| "js_neg NaN = NaN"

definition js_sub :: "jsnum \<Rightarrow> jsnum \<Rightarrow> jsnum" where
  "js_sub x y = js_add x (js_neg y)"

fun js_mul :: "jsnum \<Rightarrow> jsnum \<Rightarrow> jsnum" where
  "js_mul (Num a) (Num b) = toDouble (a * b)"
| "js_mul NaN _ = NaN"
| "js_mul _ NaN = NaN"
| "js_mul PosInf (Num b) = signed_inf b"
| "js_mul NegInf (Num b) = signed_inf (- b)"
| "js_mul (Num a) PosInf = signed_inf a"
| "js_mul (Num a) NegInf = signed_inf (- a)"
| "js_mul PosInf PosInf = PosInf"
| "js_mul NegInf NegInf = PosInf"
| "js_mul PosInf NegInf = NegInf"
| "js_mul NegInf PosInf = NegInf"

text \<open>
  Division never raises: a finite number over zero is an infinity of the dividend's sign
  (the divisor's zero taken as positive), and \<open>0 / 0\<close> is \<open>NaN\<close>.
\<close>

fun js_div :: "jsnum \<Rightarrow> jsnum \<Rightarrow> jsnum" where
  "js_div (Num a) (Num b) = (if b = 0 then signed_inf a else toDouble (a / b))"
| "js_div NaN _ = NaN"
| "js_div _ NaN = NaN"
| "js_div (Num a) PosInf = Num 0"
| "js_div (Num a) NegInf = Num 0"
| "js_div PosInf (Num b) = (if 0 \<le> b then PosInf else NegInf)"
| "js_div NegInf (Num b) = (if 0 \<le> b then NegInf else PosInf)"
| "js_div PosInf PosInf = NaN"
| "js_div PosInf NegInf = NaN"
| "js_div NegInf PosInf = NaN"
| "js_div NegInf NegInf = NaN"

text \<open>\<^verbatim>\<open>a > b\<close>: false as soon as one side is \<open>NaN\<close>.\<close>

fun js_gt :: "jsnum \<Rightarrow> jsnum \<Rightarrow> bool" where
  "js_gt (Num a) (Num b) = (b < a)"
| "js_gt NaN _ = False"
| "js_gt _ NaN = False"
| "js_gt PosInf PosInf = False"
| "js_gt PosInf _ = True"
| "js_gt _ PosInf = False"
| "js_gt NegInf _ = False"
| "js_gt _ NegInf = True"

text \<open>\<^verbatim>\<open>Math.min\<close> and \<^verbatim>\<open>Math.max\<close> of two arguments: \<open>NaN\<close> if either is.\<close>

fun js_min :: "jsnum \<Rightarrow> jsnum \<Rightarrow> jsnum" where
  "js_min NaN _ = NaN"
| "js_min _ NaN = NaN"
| "js_min x y = (if js_gt x y then y else x)"

fun js_max :: "jsnum \<Rightarrow> jsnum \<Rightarrow> jsnum" where
  "js_max NaN _ = NaN"
| "js_max _ NaN = NaN"
| "js_max x y = (if js_gt y x then y else x)"

text \<open>\<^verbatim>\<open>Math.round\<close>: the nearest integer, a tie going up; non-finite values pass through.
  The function works on the double it is given and its result is exact.\<close>

fun js_round :: "jsnum \<Rightarrow> jsnum" where
  "js_round (Num a) = Num (of_int \<lfloor>a + 1 / 2\<rfloor>)"
| "js_round x = x"

fun is_finite :: "jsnum \<Rightarrow> bool" where
  "is_finite (Num a) = True"
| "is_finite x = False"

subsection \<open>Strings\<close>

text \<open>
  \<^verbatim>\<open>String.prototype.toLowerCase\<close> on code points below 256: the letters A to Z and the
  accented capitals of the Latin-1 block (all but the multiplication sign) move up by 32.
\<close>

definition toLowerCase_char :: "char \<Rightarrow> char" where
  "toLowerCase_char c =
     (let n = (of_char c :: nat)
      in if (65 \<le> n \<and> n \<le> 90) \<or> (192 \<le> n \<and> n \<le> 222 \<and> n \<noteq> 215)
         then char_of (n + 32) else c)"

definition toLowerCase :: "string \<Rightarrow> string" where
  "toLowerCase s = map toLowerCase_char s"

text \<open>The character class \<^verbatim>\<open>[a-z0-9]\<close>.\<close>

definition is_a_z_0_9 :: "char \<Rightarrow> bool" where
  "is_a_z_0_9 c =
     (let n = (of_char c :: nat) in (97 \<le> n \<and> n \<le> 122) \<or> (48 \<le> n \<and> n \<le> 57))"

text \<open>\<^verbatim>\<open>name.toLowerCase().replace(/[^a-z0-9]/g, '')\<close>, the expression both objective
  operations apply to a name before comparing.\<close>

definition normalizedName :: "string \<Rightarrow> string" where
  "normalizedName objectiveName = filter is_a_z_0_9 (toLowerCase objectiveName)"

subsection \<open>Objects used as dictionaries\<close>

text \<open>
  The property names every plain object inherits from \<^verbatim>\<open>Object.prototype\<close>. Reading one of
  them from an object that has no own property of that name yields a function (or, for
  \<^verbatim>\<open>__proto__\<close>, the prototype object): a truthy value that is not an entry.
\<close>

definition objectPrototypeKeys :: "string list" where
  "objectPrototypeKeys =
     [''constructor'', ''__proto__'', ''hasOwnProperty'', ''isPrototypeOf'',
      ''propertyIsEnumerable'', ''toLocaleString'', ''toString'', ''valueOf'',
      ''__defineGetter__'', ''__defineSetter__'', ''__lookupGetter__'', ''__lookupSetter__'']"

datatype 'a propval = Own 'a | Inherited | Missing

definition getProp :: "(string \<times> 'a) list \<Rightarrow> string \<Rightarrow> 'a propval" where
  "getProp obj k =
     (case map_of obj k of
        Some v \<Rightarrow> Own v
      | None \<Rightarrow> if k \<in> set objectPrototypeKeys then Inherited else Missing)"

text \<open>
  \<^verbatim>\<open>obj[k] = v\<close>: an existing own property keeps its place, a new one goes last.
  Assigning to \<^verbatim>\<open>__proto__\<close> creates no own property.
\<close>

definition setProp :: "(string \<times> 'a) list \<Rightarrow> string \<Rightarrow> 'a \<Rightarrow> (string \<times> 'a) list" where
  "setProp obj k v = (if k = ''__proto__'' then obj else AList.update k v obj)"

subsection \<open>The tracker state\<close>

record objective =
  obj_name :: string
  obj_completed :: bool
  obj_score :: real
  obj_timestamp :: nat

record quizEntry =
  quiz_score :: real
  quiz_maxScore :: real
  quiz_percentage :: jsnum
  quiz_totalQuestions :: real
  quiz_timestamp :: nat

record questionEntry =
  qe_answered :: bool
  qe_correct :: bool
  qe_text :: string
  qe_timestamp :: nat

record questionLedger =
  q_total :: nat
  q_correct :: nat
  q_questions :: "(string \<times> questionEntry) list"

record trackerState =
  lessonId :: "string option"
  lessonTitle :: string
  startTime :: nat
  lastActivity :: nat
  totalTime :: int
  activeTime :: nat
  scrollDepth :: jsnum
  maxScrollDepth :: jsnum
  interactions :: nat
  objectives :: "objective list"
  isActive :: bool
  isFullscreen :: bool
  quizScores :: "(string \<times> quizEntry) list"
  topicProgress :: "(string \<times> real) list"
  questionsAnswered :: questionLedger

text \<open>The \<^verbatim>\<open>CONFIG\<close> constants the model uses.\<close>

definition minActiveTime :: real where
  "minActiveTime = 30"

definition idleTimeout :: int where
  "idleTimeout = 60000"

text \<open>The object literal that initialises \<^verbatim>\<open>trackerState\<close>, for a page titled \<open>title\<close>
  loaded at time \<open>now\<close>.\<close>

definition initialState :: "string \<Rightarrow> nat \<Rightarrow> trackerState" where
  "initialState title now =
     \<lparr> lessonId = None, lessonTitle = title, startTime = now, lastActivity = now,
       totalTime = 0, activeTime = 0, scrollDepth = Num 0, maxScrollDepth = Num 0,
       interactions = 0, objectives = [], isActive = True, isFullscreen = False,
       quizScores = [], topicProgress = [],
       questionsAnswered = \<lparr> q_total = 0, q_correct = 0, q_questions = [] \<rparr> \<rparr>"

subsection \<open>Signal collectors\<close>

text \<open>\<^verbatim>\<open>updateScrollDepth\<close>, from the three layout readings of the page.\<close>

definition updateScrollDepth :: "real \<Rightarrow> real \<Rightarrow> real \<Rightarrow> trackerState \<Rightarrow> trackerState" where
  "updateScrollDepth windowHeight documentHeight scrollTop s =
     (let scrollPercent =
            js_round (js_mul (js_div (Num scrollTop)
                                     (js_sub (Num documentHeight) (Num windowHeight)))
                             (Num 100));
          s1 = s\<lparr>scrollDepth := js_min (Num 100) scrollPercent\<rparr>
      in if js_gt (scrollDepth s1) (maxScrollDepth s1)
         then s1\<lparr>maxScrollDepth := scrollDepth s1\<rparr> else s1)"

text \<open>The debounced scroll handler, and the click and keydown handlers.\<close>

definition onScroll :: "real \<Rightarrow> real \<Rightarrow> real \<Rightarrow> nat \<Rightarrow> trackerState \<Rightarrow> trackerState" where
  "onScroll windowHeight documentHeight scrollTop now s =
     (updateScrollDepth windowHeight documentHeight scrollTop s)
       \<lparr>interactions := interactions s + 1, lastActivity := now\<rparr>"

definition onInteraction :: "nat \<Rightarrow> trackerState \<Rightarrow> trackerState" where
  "onInteraction now s = s\<lparr>interactions := interactions s + 1, lastActivity := now\<rparr>"

text \<open>The body of the one-second interval of \<^verbatim>\<open>startTimeTracking\<close>.\<close>

definition timeTick :: "nat \<Rightarrow> trackerState \<Rightarrow> trackerState" where
  "timeTick now s =
     (let s1 = s\<lparr>totalTime := (int now - int (startTime s)) div 1000\<rparr>;
          idleTime = int now - int (lastActivity s1)
      in if idleTime < idleTimeout \<and> isActive s1
         then s1\<lparr>activeTime := activeTime s1 + 1\<rparr> else s1)"

text \<open>The interval of \<^verbatim>\<open>startTimeTracking\<close> firing \<open>n\<close> times, once a second from the start
  of the session on.\<close>

fun secondsPass :: "nat \<Rightarrow> trackerState \<Rightarrow> trackerState" where
  "secondsPass 0 s = s"
| "secondsPass (Suc n) s = timeTick (startTime s + 1000 * Suc n) (secondsPass n s)"


subsection \<open>The scorer\<close>

text \<open>
  \<^verbatim>\<open>calculateProgress\<close> picks one of two branches and adds up, in each, the components it
  binds to local constants. The components are named here after those constants; the flag
  says which branch is taken (\<open>True\<close>: the quiz-aware one).
\<close>

definition hasQuizzes :: "trackerState \<Rightarrow> bool" where
  "hasQuizzes s = (length (quizScores s) > 0)"

definition hasObjectives :: "trackerState \<Rightarrow> bool" where
  "hasObjectives s = (length (objectives s) > 0)"

definition hasQuestions :: "trackerState \<Rightarrow> bool" where
  "hasQuestions s = (q_total (questionsAnswered s) > 0)"

definition quizAware :: "trackerState \<Rightarrow> bool" where
  "quizAware s = (hasQuizzes s \<or> hasQuestions s)"

definition timeProgress :: "bool \<Rightarrow> trackerState \<Rightarrow> jsnum" where
  "timeProgress quiz s =
     (if quiz
      then js_min (Num 100)
             (js_mul (js_div (Num (of_nat (activeTime s))) (Num minActiveTime)) (Num 25))
      else js_min (Num 100)
             (js_mul (js_div (Num (of_nat (activeTime s))) (Num minActiveTime)) (Num 40)))"

definition scrollProgress :: "bool \<Rightarrow> trackerState \<Rightarrow> jsnum" where
  "scrollProgress quiz s =
     (if quiz
      then js_mul (js_div (maxScrollDepth s) (Num 100)) (Num 20)
      else js_mul (js_div (maxScrollDepth s) (Num 100)) (Num 30))"

definition interactionProgress :: "bool \<Rightarrow> trackerState \<Rightarrow> jsnum" where
  "interactionProgress quiz s =
     (if quiz
      then js_min (Num 10) (js_mul (Num (of_nat (interactions s))) (Num (1 / 2)))
      else js_min (Num 15) (Num (of_nat (interactions s))))"

text \<open>The average is a left fold from 0 over the stored entries, divided by their number.\<close>

definition avgQuizScore :: "trackerState \<Rightarrow> jsnum" where
  "avgQuizScore s =
     js_div (foldl (\<lambda>sum q. js_add sum (quiz_percentage q)) (Num 0) (map snd (quizScores s)))
            (Num (of_nat (length (quizScores s))))"

definition correctPercent :: "trackerState \<Rightarrow> jsnum" where
  "correctPercent s =
     (if q_total (questionsAnswered s) > 0
      then js_mul (js_div (Num (of_nat (q_correct (questionsAnswered s))))
                          (Num (of_nat (q_total (questionsAnswered s)))))
                  (Num 100)
      else Num 0)"

definition quizProgress :: "trackerState \<Rightarrow> jsnum" where
  "quizProgress s =
     (if hasQuizzes s then js_mul (js_div (avgQuizScore s) (Num 100)) (Num 30)
      else if hasQuestions s then js_mul (js_div (correctPercent s) (Num 100)) (Num 30)
      else Num 0)"

definition completedObjectives :: "trackerState \<Rightarrow> nat" where
  "completedObjectives s = length (filter obj_completed (objectives s))"

definition objectiveProgress :: "trackerState \<Rightarrow> jsnum" where
  "objectiveProgress s =
     (if hasObjectives s
      then js_mul (js_div (Num (of_nat (completedObjectives s)))
                          (Num (of_nat (length (objectives s)))))
                  (Num 15)
      else Num 15)"

definition calculateProgress :: "trackerState \<Rightarrow> jsnum" where
  "calculateProgress s =
     (let progress =
        (if hasQuizzes s \<or> hasQuestions s
         then js_add (js_add (js_add (js_add (js_add (Num 0)
                (timeProgress True s)) (scrollProgress True s)) (interactionProgress True s))
                (quizProgress s)) (objectiveProgress s)
         else js_add (js_add (js_add (js_add (Num 0)
                (timeProgress False s)) (scrollProgress False s)) (interactionProgress False s))
                (objectiveProgress s))
      in js_min (Num 100) (js_round progress))"

subsection \<open>The reporter\<close>

record progressData =
  pd_progress :: jsnum
  pd_scrollDepth :: jsnum
  pd_activeTime :: nat
  pd_totalTime :: int
  pd_interactions :: nat
  pd_objectives :: "objective list"
  pd_quizScores :: "(string \<times> quizEntry) list"
  pd_topicProgress :: "(string \<times> real) list"
  pd_questionsAnswered :: questionLedger
  pd_timestamp :: nat

record completionData =
  cd_activeTime :: nat
  cd_scrollDepth :: jsnum
  cd_objectives :: "objective list"
  cd_quizScores :: "(string \<times> quizEntry) list"
  cd_topicProgress :: "(string \<times> real) list"
  cd_questionsAnswered :: questionLedger

datatype message =
    TRACKER_READY "string option" string
  | PROGRESS_UPDATE "string option" progressData
  | VIDEO_STARTED "string option"
  | VIDEO_COMPLETED "string option"
  | FULLSCREEN_CHANGED bool
  | LESSON_COMPLETED "string option" completionData

text \<open>The tracker together with the log of what it has handed to \<^verbatim>\<open>sendToParent\<close>.\<close>

record tracker =
  st :: trackerState
  sent :: "message list"

definition sendToParent :: "message \<Rightarrow> tracker \<Rightarrow> tracker" where
  "sendToParent m w = w\<lparr>sent := sent w @ [m]\<rparr>"

text \<open>The message \<^verbatim>\<open>sendProgressUpdate\<close> builds from the state, and its sending.\<close>

definition progressUpdate :: "nat \<Rightarrow> trackerState \<Rightarrow> message" where
  "progressUpdate now s =
     (let progress = calculateProgress s
      in PROGRESS_UPDATE (lessonId s)
           \<lparr> pd_progress = progress,
             pd_scrollDepth = maxScrollDepth s,
             pd_activeTime = activeTime s,
             pd_totalTime = totalTime s,
             pd_interactions = interactions s,
             pd_objectives = objectives s,
             pd_quizScores = quizScores s,
             pd_topicProgress = topicProgress s,
             pd_questionsAnswered = questionsAnswered s,
             pd_timestamp = now \<rparr>)"

definition sendProgressUpdate :: "nat \<Rightarrow> tracker \<Rightarrow> tracker" where
  "sendProgressUpdate now w = sendToParent (progressUpdate now (st w)) w"

definition startTracker :: "string \<Rightarrow> nat \<Rightarrow> tracker" where
  "startTracker title now = \<lparr> st = initialState title now, sent = [] \<rparr>"

fun is_progress_update :: "message \<Rightarrow> bool" where
  "is_progress_update (PROGRESS_UPDATE l d) = True"
| "is_progress_update m = False"

text \<open>The number of progress updates emitted so far.\<close>

definition pulses :: "tracker \<Rightarrow> nat" where
  "pulses w = length (filter is_progress_update (sent w))"

subsection \<open>The public operations (\<^verbatim>\<open>window.CAETTracker\<close>)\<close>

text \<open>
  \<^verbatim>\<open>Array.prototype.find\<close> returns the first element that satisfies the predicate, and the
  caller then assigns to that element's fields in place: \<open>updateFirst\<close> is that assignment
  as seen in the array.
\<close>

fun updateFirst :: "('a \<Rightarrow> bool) \<Rightarrow> ('a \<Rightarrow> 'a) \<Rightarrow> 'a list \<Rightarrow> 'a list" where
  "updateFirst P f [] = []"
| "updateFirst P f (x # xs) = (if P x then f x # xs else x # updateFirst P f xs)"

definition sameObjective :: "string \<Rightarrow> objective \<Rightarrow> bool" where
  "sameObjective key o' = (normalizedName (obj_name o') = key)"

text \<open>\<^verbatim>\<open>completeObjective(objectiveName, score = 100)\<close>; the default is the caller's to
  supply here.\<close>

definition completeObjective :: "string \<Rightarrow> real \<Rightarrow> nat \<Rightarrow> tracker \<Rightarrow> tracker" where
  "completeObjective objectiveName score now w =
     (let key = normalizedName objectiveName;
          objs = objectives (st w);
          objs' =
            (case find (sameObjective key) objs of
               Some existing \<Rightarrow>
                 updateFirst (sameObjective key)
                   (\<lambda>e. e\<lparr>obj_completed := True, obj_score := max (obj_score e) score\<rparr>) objs
             | None \<Rightarrow>
                 objs @ [\<lparr> obj_name = objectiveName, obj_completed = True,
                           obj_score = score, obj_timestamp = now \<rparr>])
      in sendProgressUpdate now (w\<lparr>st := (st w)\<lparr>objectives := objs'\<rparr>\<rparr>))"

definition addObjective :: "string \<Rightarrow> nat \<Rightarrow> tracker \<Rightarrow> tracker" where
  "addObjective objectiveName now w =
     (let key = normalizedName objectiveName;
          objs = objectives (st w)
      in case find (sameObjective key) objs of
           Some existing \<Rightarrow> w
         | None \<Rightarrow>
             w\<lparr>st := (st w)\<lparr>objectives :=
                  objs @ [\<lparr> obj_name = objectiveName, obj_completed = False,
                            obj_score = 0, obj_timestamp = now \<rparr>]\<rparr>\<rparr>)"

text \<open>The rounded percentage \<^verbatim>\<open>recordQuizScore\<close> computes first.\<close>

definition quizPercentage :: "real \<Rightarrow> real \<Rightarrow> jsnum" where
  "quizPercentage score maxScore = js_round (js_mul (js_div (Num score) (Num maxScore)) (Num 100))"

text \<open>
  The test \<^verbatim>\<open>!existingQuiz || percentage > existingQuiz.percentage\<close>. An inherited property
  is truthy and has no \<^verbatim>\<open>percentage\<close>, so the comparison is with \<^verbatim>\<open>undefined\<close> and fails.
\<close>

definition quizImproves :: "jsnum \<Rightarrow> quizEntry propval \<Rightarrow> bool" where
  "quizImproves percentage existingQuiz =
     (case existingQuiz of
        Missing \<Rightarrow> True
      | Own q \<Rightarrow> js_gt percentage (quiz_percentage q)
      | Inherited \<Rightarrow> False)"

text \<open>
  \<^verbatim>\<open>recordQuizScore(quizName, score, maxScore = 100, totalQuestions = null)\<close>;
  \<^verbatim>\<open>totalQuestions || maxScore\<close> falls back to \<open>maxScore\<close> for \<^verbatim>\<open>null\<close> and for 0.
\<close>

definition recordQuizScore ::
  "string \<Rightarrow> real \<Rightarrow> real \<Rightarrow> real option \<Rightarrow> nat \<Rightarrow> tracker \<Rightarrow> tracker" where
  "recordQuizScore quizName score maxScore totalQuestions now w =
     (let percentage = quizPercentage score maxScore;
          existingQuiz = getProp (quizScores (st w)) quizName;
          w1 = (if quizImproves percentage existingQuiz
                then w\<lparr>st := (st w)\<lparr>quizScores :=
                       setProp (quizScores (st w)) quizName
                         \<lparr> quiz_score = score, quiz_maxScore = maxScore,
                           quiz_percentage = percentage,
                           quiz_totalQuestions =
                             (case totalQuestions of
                                Some t \<Rightarrow> if t \<noteq> 0 then t else maxScore
                              | None \<Rightarrow> maxScore),
                           quiz_timestamp = now \<rparr>\<rparr>\<rparr>
                else w)
      in sendProgressUpdate now w1)"

text \<open>\<^verbatim>\<open>recordQuestionAnswer(questionId, isCorrect, questionText = '')\<close>. The guard
  \<^verbatim>\<open>!questions[questionId]\<close> passes only when the lookup finds nothing at all.\<close>

definition recordQuestionAnswer :: "string \<Rightarrow> bool \<Rightarrow> string \<Rightarrow> nat \<Rightarrow> tracker \<Rightarrow> tracker" where
  "recordQuestionAnswer questionId isCorrect questionText now w =
     (let qa = questionsAnswered (st w)
      in case getProp (q_questions qa) questionId of
           Missing \<Rightarrow>
             (let qa1 = qa\<lparr>q_questions :=
                          setProp (q_questions qa) questionId
                            \<lparr> qe_answered = True, qe_correct = isCorrect,
                              qe_text = questionText, qe_timestamp = now \<rparr>\<rparr>;
                  qa2 = qa1\<lparr>q_total := q_total qa1 + 1\<rparr>;
                  qa3 = (if isCorrect then qa2\<lparr>q_correct := q_correct qa2 + 1\<rparr> else qa2)
              in sendProgressUpdate now (w\<lparr>st := (st w)\<lparr>questionsAnswered := qa3\<rparr>\<rparr>))
         | Own e \<Rightarrow> w
         | Inherited \<Rightarrow> w)"

record questionsStats =
  qs_total :: nat
  qs_correct :: nat
  qs_percentage :: jsnum

definition getQuestionsStats :: "tracker \<Rightarrow> questionsStats" where
  "getQuestionsStats w =
     \<lparr> qs_total = q_total (questionsAnswered (st w)),
       qs_correct = q_correct (questionsAnswered (st w)),
       qs_percentage =
         (if q_total (questionsAnswered (st w)) > 0
          then js_round (js_mul (js_div (Num (of_nat (q_correct (questionsAnswered (st w)))))
                                        (Num (of_nat (q_total (questionsAnswered (st w))))))
                                (Num 100))
          else Num 0) \<rparr>"

definition updateTopicProgress :: "string \<Rightarrow> real \<Rightarrow> nat \<Rightarrow> tracker \<Rightarrow> tracker" where
  "updateTopicProgress topicName percentage now w =
     sendProgressUpdate now
       (w\<lparr>st := (st w)\<lparr>topicProgress :=
            setProp (topicProgress (st w)) topicName (min 100 (max 0 percentage))\<rparr>\<rparr>)"

definition markCompleted :: "tracker \<Rightarrow> tracker" where
  "markCompleted w =
     sendToParent
       (LESSON_COMPLETED (lessonId (st w))
          \<lparr> cd_activeTime = activeTime (st w),
            cd_scrollDepth = maxScrollDepth (st w),
            cd_objectives = objectives (st w),
            cd_quizScores = quizScores (st w),
            cd_topicProgress = topicProgress (st w),
            cd_questionsAnswered = questionsAnswered (st w) \<rparr>) w"

definition setLessonId :: "string \<Rightarrow> tracker \<Rightarrow> tracker" where
  "setLessonId id' w = w\<lparr>st := (st w)\<lparr>lessonId := Some id'\<rparr>\<rparr>"

definition resetQuestions :: "nat \<Rightarrow> tracker \<Rightarrow> tracker" where
  "resetQuestions now w =
     sendProgressUpdate now
       (w\<lparr>st := (st w)\<lparr>questionsAnswered :=
            \<lparr> q_total = 0, q_correct = 0, q_questions = [] \<rparr>\<rparr>\<rparr>)"

subsection \<open>Sequences of calls\<close>

text \<open>
  The page drives the tracker through the operations above, one synchronous call after the
  other. A history is a list of such calls; \<open>run\<close> performs them in order.
\<close>

datatype apiCall =
    CompleteObjective string real nat
  | AddObjective string nat
  | RecordQuizScore string real real "real option" nat
  | RecordQuestionAnswer string bool string nat
  | UpdateTopicProgress string real nat
  | MarkCompleted
  | SetLessonId string
  | ResetQuestions nat

fun applyCall :: "apiCall \<Rightarrow> tracker \<Rightarrow> tracker" where
  "applyCall (CompleteObjective n sc now) w = completeObjective n sc now w"
| "applyCall (AddObjective n now) w = addObjective n now w"
| "applyCall (RecordQuizScore n sc mx tq now) w = recordQuizScore n sc mx tq now w"
| "applyCall (RecordQuestionAnswer q c t now) w = recordQuestionAnswer q c t now w"
| "applyCall (UpdateTopicProgress n p now) w = updateTopicProgress n p now w"
| "applyCall MarkCompleted w = markCompleted w"
| "applyCall (SetLessonId i) w = setLessonId i w"
| "applyCall (ResetQuestions now) w = resetQuestions now w"

definition run :: "apiCall list \<Rightarrow> tracker \<Rightarrow> tracker" where
  "run calls w = fold applyCall calls w"

text \<open>
  A page that puts \<open>n\<close> questions, named \<open>q\<close>, \<open>qq\<close>, \<open>qqq\<close> and so on, and records the
  answer to each at once, the first \<open>k\<close> of them correct.
\<close>

fun answerQuestions :: "nat \<Rightarrow> nat \<Rightarrow> tracker \<Rightarrow> tracker" where
  "answerQuestions 0 k w = w"
| "answerQuestions (Suc n) k w =
     recordQuestionAnswer (replicate (Suc n) CHR ''q'') (n < k) [] n (answerQuestions n k w)"

text \<open>
  The ledger's counters agree with its map: no question id is stored twice, \<open>q_total\<close> counts
  the stored questions and \<open>q_correct\<close> those stored as correct.
\<close>

definition ledgerConsistent :: "questionLedger \<Rightarrow> bool" where
  "ledgerConsistent qa =
     (distinct (map fst (q_questions qa)) \<and>
      q_total qa = length (q_questions qa) \<and>
      q_correct qa = length (filter (\<lambda>p. qe_correct (snd p)) (q_questions qa)))"

text \<open>
  For the objective of canonical key \<open>k\<close>: the score a call completes it with, whether a call
  registers it with \<^verbatim>\<open>addObjective\<close>, and the scores of a history's completions in call
  order.
\<close>

fun completionOf :: "string \<Rightarrow> apiCall \<Rightarrow> real option" where
  "completionOf k (CompleteObjective n sc now) = (if normalizedName n = k then Some sc else None)"
| "completionOf k c = None"

fun registers :: "string \<Rightarrow> apiCall \<Rightarrow> bool" where
  "registers k (AddObjective n now) = (normalizedName n = k)"
| "registers k c = False"

definition completionScores :: "string \<Rightarrow> apiCall list \<Rightarrow> real list" where
  "completionScores k calls = List.map_filter (completionOf k) calls"

text \<open>Whether the first call of a history that concerns the key \<open>k\<close> is a registration, so
  that the entry of \<open>k\<close> starts out with \<^verbatim>\<open>addObjective\<close>'s score 0.\<close>

fun registeredFirst :: "string \<Rightarrow> apiCall list \<Rightarrow> bool" where
  "registeredFirst k [] = False"
| "registeredFirst k (c # calls) =
     (if registers k c then True
      else if completionOf k c \<noteq> None then False
      else registeredFirst k calls)"

subsection \<open>The state as objects of the page's heap\<close>

text \<open>
  \<^verbatim>\<open>getState\<close> returns \<^verbatim>\<open>{ ...trackerState }\<close>. What a caller can do to the tracker through
  that object depends on which objects the copy shares with \<^verbatim>\<open>trackerState\<close>, and the values
  of a record share nothing. For this operation the state is therefore laid out as the script
  allocates it: the object bound to \<^verbatim>\<open>trackerState\<close> and, referenced from its fields, the
  \<^verbatim>\<open>objectives\<close> array, the \<^verbatim>\<open>quizScores\<close>, \<^verbatim>\<open>topicProgress\<close> and \<^verbatim>\<open>questionsAnswered\<close> objects
  and the \<^verbatim>\<open>questions\<close> object of the latter.

  The object bound to the constant \<^verbatim>\<open>trackerState\<close> has address 0; every other object has the
  address of its position in \<open>allocated\<close>, plus one.
\<close>

type_synonym addr = nat

datatype jsval = VUndefined | VNull | VBool bool | VNumber jsnum | VString string | VRef addr

datatype jsobject = Object "(string \<times> jsval) list" | Array "jsval list"

record heap =
  trackerObject :: "(string \<times> jsval) list"
  allocated :: "jsobject list"

definition trackerAddr :: addr where
  "trackerAddr = 0"

definition objectAt :: "heap \<Rightarrow> addr \<Rightarrow> jsobject option" where
  "objectAt h a =
     (if a = trackerAddr then Some (Object (trackerObject h))
      else if a - 1 < length (allocated h) then Some (allocated h ! (a - 1))
      else None)"

text \<open>The object literal that initialises \<^verbatim>\<open>trackerState\<close>, with its nested literals.\<close>

definition initialHeap :: "string \<Rightarrow> nat \<Rightarrow> heap" where
  "initialHeap title now =
     \<lparr> trackerObject =
         [(''lessonId'', VNull),
          (''lessonTitle'', VString title),
          (''startTime'', VNumber (Num (of_nat now))),
          (''lastActivity'', VNumber (Num (of_nat now))),
          (''totalTime'', VNumber (Num 0)),
          (''activeTime'', VNumber (Num 0)),
          (''scrollDepth'', VNumber (Num 0)),
          (''maxScrollDepth'', VNumber (Num 0)),
          (''interactions'', VNumber (Num 0)),
          (''objectives'', VRef 1),
          (''isActive'', VBool True),
          (''isFullscreen'', VBool False),
          (''quizScores'', VRef 2),
          (''topicProgress'', VRef 3),
          (''questionsAnswered'', VRef 4)],
       allocated =
         [Array [],
          Object [],
          Object [],
          Object [(''total'', VNumber (Num 0)), (''correct'', VNumber (Num 0)),
                  (''questions'', VRef 5)],
          Object []] \<rparr>"

text \<open>A new object gets the next address.\<close>

definition alloc :: "jsobject \<Rightarrow> heap \<Rightarrow> heap \<times> addr" where
  "alloc ob h = (h\<lparr>allocated := allocated h @ [ob]\<rparr>, length (allocated h) + 1)"

text \<open>
  \<^verbatim>\<open>getState\<close>: the spread copies the own properties of \<^verbatim>\<open>trackerState\<close>, each with the
  value it holds, into a new object, and the call returns the reference to that object.
\<close>

definition getState :: "heap \<Rightarrow> heap \<times> jsval" where
  "getState h = (case alloc (Object (trackerObject h)) h of (h', a) \<Rightarrow> (h', VRef a))"

text \<open>
  What the page's code can do with a reference: read a data property (\<^verbatim>\<open>r.k\<close>), follow a
  chain of them (\<^verbatim>\<open>r.k1.k2\<close>), assign to one (\<^verbatim>\<open>r.k = v\<close>, also at the end of a chain) and
  append to an array (\<^verbatim>\<open>r.push(v)\<close>). Reading through something that is not an object
  yields \<^verbatim>\<open>undefined\<close> here and assigning through it changes nothing.
\<close>

definition readField :: "heap \<Rightarrow> addr \<Rightarrow> string \<Rightarrow> jsval" where
  "readField h a k =
     (case objectAt h a of
        Some (Object ps) \<Rightarrow> (case map_of ps k of Some v \<Rightarrow> v | None \<Rightarrow> VUndefined)
      | _ \<Rightarrow> VUndefined)"

fun readPath :: "heap \<Rightarrow> jsval \<Rightarrow> string list \<Rightarrow> jsval" where
  "readPath h v [] = v"
| "readPath h (VRef a) (k # ks) = readPath h (readField h a k) ks"
| "readPath h v (k # ks) = VUndefined"

definition assignField :: "addr \<Rightarrow> string \<Rightarrow> jsval \<Rightarrow> heap \<Rightarrow> heap" where
  "assignField a k v h =
     (if a = trackerAddr then h\<lparr>trackerObject := setProp (trackerObject h) k v\<rparr>
      else case objectAt h a of
             Some (Object ps) \<Rightarrow> h\<lparr>allocated := (allocated h)[a - 1 := Object (setProp ps k v)]\<rparr>
           | _ \<Rightarrow> h)"

definition assignThrough :: "jsval \<Rightarrow> string list \<Rightarrow> string \<Rightarrow> jsval \<Rightarrow> heap \<Rightarrow> heap" where
  "assignThrough r path k v h =
     (case readPath h r path of VRef a \<Rightarrow> assignField a k v h | _ \<Rightarrow> h)"

definition pushThrough :: "jsval \<Rightarrow> string list \<Rightarrow> jsval \<Rightarrow> heap \<Rightarrow> heap" where
  "pushThrough r path v h =
     (case readPath h r path of
        VRef a \<Rightarrow>
          (case objectAt h a of
             Some (Array vs) \<Rightarrow> h\<lparr>allocated := (allocated h)[a - 1 := Array (vs @ [v])]\<rparr>
           | _ \<Rightarrow> h)
      | _ \<Rightarrow> h)"

text \<open>
  Predicates on numbers and states for the range of the score: a number that is neither
  negative nor \<open>NaN\<close>; an integer between 0 and 100; a state whose deepest scroll position is
  between 0 and 100 (every state the collectors produce) and whose stored quiz percentages
  are neither negative nor \<open>NaN\<close>.
\<close>

fun nonnegative :: "jsnum \<Rightarrow> bool" where
  "nonnegative (Num a) = (0 \<le> a)"
| "nonnegative PosInf = True"
| "nonnegative x = False"

fun integerPercent :: "jsnum \<Rightarrow> bool" where
  "integerPercent (Num a) = (a = of_int \<lfloor>a\<rfloor> \<and> 0 \<le> a \<and> a \<le> 100)"
| "integerPercent x = False"

definition scrollInRange :: "trackerState \<Rightarrow> bool" where
  "scrollInRange s =
     (nonnegative (maxScrollDepth s) \<and> \<not> js_gt (maxScrollDepth s) (Num 100))"

definition quizPercentagesNonnegative :: "trackerState \<Rightarrow> bool" where
  "quizPercentagesNonnegative s =
     list_all (\<lambda>q. nonnegative (quiz_percentage q)) (map snd (quizScores s))"

section \<open>Properties\<close>

subsection \<open>Rounding to a double\<close>

lemma powi_succ: "(2::real) powi (k + 1) = 2 powi k * 2"
  by (simp add: power_int_add)

lemma powi_pred: "(2::real) powi (k - 1) = 2 powi k / 2"
  by (simp add: power_int_diff)

text \<open>\<open>binaryExponent\<close> does find the exponent.\<close>

lemma binaryExponent_bounds:
  "0 < x \<Longrightarrow> 2 powi binaryExponent x \<le> x \<and> x < 2 powi (binaryExponent x + 1)"
proof (induction x rule: binaryExponent.induct)
  case (1 x)
  show ?case
  proof (cases "2 \<le> x")
    case True
    define b where "b = binaryExponent (x / 2)"
    from True 1 have IH: "2 powi b \<le> x / 2 \<and> x / 2 < 2 powi (b + 1)"
      unfolding b_def by simp
    have eq: "binaryExponent x = b + 1"
      unfolding b_def using True 1 by (subst binaryExponent.simps) simp
    have "(2::real) powi (b + 1) = 2 powi b * 2"
      and "(2::real) powi (b + 1 + 1) = 2 powi (b + 1) * 2"
      by (rule powi_succ)+
    with IH have "2 powi (b + 1) \<le> x \<and> x < 2 powi (b + 1 + 1)"
      by linarith
    then show ?thesis
      unfolding eq .
  next
    case False
    show ?thesis
    proof (cases "x < 1")
      case True
      define b where "b = binaryExponent (x * 2)"
      from True False 1 have IH: "2 powi b \<le> x * 2 \<and> x * 2 < 2 powi (b + 1)"
        unfolding b_def by simp
      have eq: "binaryExponent x = b - 1"
        unfolding b_def using True False 1 by (subst binaryExponent.simps) simp
      have "(2::real) powi (b - 1) = 2 powi b / 2" and "(2::real) powi (b + 1) = 2 powi b * 2"
        by (rule powi_pred, rule powi_succ)
      with IH have "2 powi (b - 1) \<le> x \<and> x < 2 powi b"
        by linarith
      then show ?thesis
        unfolding eq by simp
    next
      case ge: False
      then have "binaryExponent x = 0"
        using False 1 by (subst binaryExponent.simps) simp
      with ge False show ?thesis by simp
    qed
  qed
qed

lemma roundHalfEven_of_int [simp]: "roundHalfEven (of_int n) = n"
  by (simp add: roundHalfEven_def)

lemma roundHalfEven_nonneg: "0 \<le> y \<Longrightarrow> 0 \<le> roundHalfEven y"
  by (auto simp: roundHalfEven_def Let_def)

lemma roundHalfEven_mono:
  assumes "x \<le> y"
  shows "roundHalfEven x \<le> roundHalfEven y"
proof (cases "\<lfloor>x\<rfloor> = \<lfloor>y\<rfloor>")
  case True
  with assms show ?thesis
    by (auto simp: roundHalfEven_def Let_def)
next
  case False
  with assms have "\<lfloor>x\<rfloor> + 1 \<le> \<lfloor>y\<rfloor>"
    using floor_mono [OF assms] by linarith
  moreover have "roundHalfEven x \<le> \<lfloor>x\<rfloor> + 1" and "\<lfloor>y\<rfloor> \<le> roundHalfEven y"
    by (auto simp: roundHalfEven_def Let_def)
  ultimately show ?thesis by linarith
qed

text \<open>Rounding keeps the sign, and keeps a number below a natural number that is a double.\<close>

lemma toDouble_nonnegative:
  assumes "0 \<le> x"
  shows "nonnegative (toDouble x)"
proof (cases "x = 0")
  case True
  then show ?thesis by (simp add: toDouble_def)
next
  case False
  define q where "q = (2::real) powi (max (binaryExponent \<bar>x\<bar>) (- 1022) - 52)"
  have "0 < q" unfolding q_def by simp
  with assms have "0 \<le> x / q" by simp
  then have "0 \<le> roundHalfEven (x / q)" by (rule roundHalfEven_nonneg)
  with \<open>0 < q\<close> have "0 \<le> of_int (roundHalfEven (x / q)) * q" by simp
  with False assms show ?thesis
    unfolding toDouble_def Let_def q_def [symmetric]
    by (simp add: signed_inf_def)
qed

text \<open>Evaluating the rounding of a numeral.\<close>

lemmas eval_double =
  toDouble_def binaryExponent.simps roundHalfEven_def Let_def signed_inf_def

lemmas eval_start =
  startTracker_def initialState_def getProp_def setProp_def objectPrototypeKeys_def Let_def

lemmas eval_scorer =
  calculateProgress_def hasQuizzes_def hasQuestions_def hasObjectives_def quizAware_def
  timeProgress_def scrollProgress_def interactionProgress_def quizProgress_def
  avgQuizScore_def correctPercent_def objectiveProgress_def completedObjectives_def
  minActiveTime_def

lemma toDouble_bounded:
  assumes "0 \<le> x" and "x \<le> of_nat B" and "B < 2 ^ 53"
  shows "\<exists>r. toDouble x = Num r \<and> 0 \<le> r \<and> r \<le> of_nat B"
proof (cases "x = 0")
  case True
  then show ?thesis by (simp add: toDouble_def)
next
  case False
  with assms have pos: "0 < x" by simp
  define e where "e = max (binaryExponent \<bar>x\<bar>) (- 1022)"
  define q where "q = (2::real) powi (e - 52)"
  define r where "r = of_int (roundHalfEven (x / q)) * q"
  have qpos: "0 < q" unfolding q_def by simp
  have "2 powi binaryExponent x \<le> x"
    using binaryExponent_bounds [OF pos] by simp
  also have "x \<le> of_nat B" by fact
  also have small: "of_nat B < (2::real) ^ 53"
    using assms(3) by (metis of_nat_less_iff of_nat_numeral of_nat_power)
  finally have "(2::real) powi binaryExponent x < 2 powi 53"
    by simp
  then have "binaryExponent x < 53"
    by (intro power_int_le_imp_less_exp [of "2::real"]) simp_all
  then have ele: "e \<le> 52"
    unfolding e_def using pos by simp
  then have inv: "1 / q = of_int (2 ^ nat (52 - e))"
    unfolding q_def by (simp add: power_int_def field_simps split: if_splits)
  have "of_nat B / q = of_nat B * (1 / q)"
    by simp
  also have "\<dots> = of_int (int B * 2 ^ nat (52 - e))"
    unfolding inv by simp
  finally have multiple: "of_nat B / q = of_int (int B * 2 ^ nat (52 - e))" .
  then have "roundHalfEven (of_nat B / q) = int B * 2 ^ nat (52 - e)"
    by (simp only: roundHalfEven_of_int)
  moreover have "roundHalfEven (x / q) \<le> roundHalfEven (of_nat B / q)"
    using assms(2) qpos by (intro roundHalfEven_mono) (simp add: divide_right_mono)
  ultimately have "of_int (roundHalfEven (x / q)) \<le> (of_nat B / q :: real)"
    using multiple by (metis of_int_le_iff)
  then have rle: "r \<le> of_nat B"
    unfolding r_def using qpos by (simp add: field_simps)
  have "0 \<le> roundHalfEven (x / q)"
    using assms(1) qpos by (intro roundHalfEven_nonneg) simp
  then have rge: "0 \<le> r"
    unfolding r_def using qpos by simp
  have "r < 2 ^ 53"
    using rle small by linarith
  also have "(2::real) ^ 53 \<le> 2 powi 1024"
    by (simp add: power_int_def)
  finally have "\<not> 2 powi 1024 \<le> \<bar>r\<bar>"
    using rge by simp
  then have "toDouble x = Num r"
    using False
    unfolding toDouble_def Let_def e_def [symmetric] q_def [symmetric] r_def [symmetric]
    by simp
  with rge rle show ?thesis by blast
qed

lemma nonnegative_js_add: "nonnegative x \<Longrightarrow> nonnegative y \<Longrightarrow> nonnegative (js_add x y)"
  by (cases x; cases y) (simp_all add: toDouble_nonnegative)

lemma nonnegative_js_mul:
  "nonnegative x \<Longrightarrow> 0 < b \<Longrightarrow> nonnegative (js_mul x (Num b))"
  by (cases x) (simp_all add: toDouble_nonnegative signed_inf_def)

lemma nonnegative_js_div:
  "nonnegative x \<Longrightarrow> 0 < b \<Longrightarrow> nonnegative (js_div x (Num b))"
  by (cases x) (simp_all add: toDouble_nonnegative)

lemma nonnegative_js_min:
  "nonnegative x \<Longrightarrow> nonnegative y \<Longrightarrow> nonnegative (js_min x y)"
  by (cases x; cases y) simp_all

subsection \<open>Basic facts about the reporter and the dictionaries\<close>

lemma st_sendToParent [simp]: "st (sendToParent m w) = st w"
  by (simp add: sendToParent_def)

lemma st_sendProgressUpdate [simp]: "st (sendProgressUpdate now w) = st w"
  by (simp add: sendProgressUpdate_def)

lemma sent_sendProgressUpdate [simp]:
  "sent (sendProgressUpdate now w) = sent w @ [progressUpdate now (st w)]"
  by (simp add: sendProgressUpdate_def sendToParent_def)

lemma getProp_Missing_iff:
  "getProp obj k = Missing \<longleftrightarrow> map_of obj k = None \<and> k \<notin> set objectPrototypeKeys"
  by (simp add: getProp_def split: option.splits)

lemma getProp_Own_iff: "getProp obj k = Own v \<longleftrightarrow> map_of obj k = Some v"
  by (simp add: getProp_def split: option.splits)

lemma proto_in_keys: "''__proto__'' \<in> set objectPrototypeKeys"
  by (simp add: objectPrototypeKeys_def)

lemma setProp_fresh:
  assumes "getProp obj k = Missing"
  shows "setProp obj k v = obj @ [(k, v)]"
proof -
  from assms have "k \<noteq> ''__proto__''" and "map_of obj k = None"
    using proto_in_keys by (auto simp: getProp_Missing_iff)
  then show ?thesis
    by (induction obj) (auto simp: setProp_def split: if_splits)
qed

lemma map_of_setProp_other: "k' \<noteq> k \<Longrightarrow> map_of (setProp obj k v) k' = map_of obj k'"
  by (simp add: setProp_def update_conv')

lemma map_of_setProp_same:
  "k \<noteq> ''__proto__'' \<Longrightarrow> map_of (setProp obj k v) k = Some v"
  by (simp add: setProp_def update_conv')

subsection \<open>The question ledger\<close>

lemma recordQuestionAnswer_present:
  assumes "questionId \<in> fst ` set (q_questions (questionsAnswered (st w)))"
  shows "recordQuestionAnswer questionId isCorrect questionText now w = w"
proof -
  from assms obtain e where "map_of (q_questions (questionsAnswered (st w))) questionId = Some e"
    by (metis map_of_eq_None_iff not_Some_eq)
  then have "getProp (q_questions (questionsAnswered (st w))) questionId = Own e"
    by (simp add: getProp_Own_iff)
  then show ?thesis by (simp add: recordQuestionAnswer_def Let_def)
qed

lemma recordQuestionAnswer_twice:
  "recordQuestionAnswer questionId isCorrect' questionText' now'
     (recordQuestionAnswer questionId isCorrect questionText now w) =
   recordQuestionAnswer questionId isCorrect questionText now w"
proof (cases "getProp (q_questions (questionsAnswered (st w))) questionId")
  case Missing
  then have fresh: "\<And>v. setProp (q_questions (questionsAnswered (st w))) questionId v =
      q_questions (questionsAnswered (st w)) @ [(questionId, v)]"
    by (rule setProp_fresh)
  have "questionId \<in> fst ` set (q_questions (questionsAnswered
          (st (recordQuestionAnswer questionId isCorrect questionText now w))))"
    by (simp add: recordQuestionAnswer_def Let_def Missing fresh)
  then show ?thesis by (rule recordQuestionAnswer_present)
next
  case (Own e)
  then show ?thesis by (simp add: recordQuestionAnswer_def Let_def)
next
  case Inherited
  then show ?thesis by (simp add: recordQuestionAnswer_def Let_def)
qed

text \<open>
  Claim C7. A call of \<^verbatim>\<open>recordQuestionAnswer\<close> with a question id that the ledger already
  holds changes nothing: the map of questions and both counters stay as they are (and no
  message is sent), whatever \<open>isCorrect\<close> and the text of the call are. In particular a
  second call with the id of a first one leaves the ledger as the first call left it.
\<close>

theorem recordQuestionAnswer_repeat_is_noop:
  "(questionId \<in> fst ` set (q_questions (questionsAnswered (st w))) \<longrightarrow>
      questionsAnswered (st (recordQuestionAnswer questionId isCorrect questionText now w)) =
        questionsAnswered (st w) \<and>
      recordQuestionAnswer questionId isCorrect questionText now w = w) \<and>
   questionsAnswered (st (recordQuestionAnswer questionId isCorrect' questionText' now'
        (recordQuestionAnswer questionId isCorrect questionText now w))) =
     questionsAnswered (st (recordQuestionAnswer questionId isCorrect questionText now w))"
proof (intro conjI impI)
  assume present: "questionId \<in> fst ` set (q_questions (questionsAnswered (st w)))"
  then show unchanged: "recordQuestionAnswer questionId isCorrect questionText now w = w"
    by (rule recordQuestionAnswer_present)
  then show "questionsAnswered (st (recordQuestionAnswer questionId isCorrect questionText
      now w)) = questionsAnswered (st w)"
    by simp
next
  have "recordQuestionAnswer questionId isCorrect' questionText' now'
      (recordQuestionAnswer questionId isCorrect questionText now w) =
    recordQuestionAnswer questionId isCorrect questionText now w"
    by (rule recordQuestionAnswer_twice)
  then show "questionsAnswered (st (recordQuestionAnswer questionId isCorrect' questionText' now'
        (recordQuestionAnswer questionId isCorrect questionText now w))) =
     questionsAnswered (st (recordQuestionAnswer questionId isCorrect questionText now w))"
    by simp
qed

theorem recordQuestionAnswer_repeat_is_noop_witness:
  "''q1'' \<in> fst ` set (q_questions (questionsAnswered
       (st (recordQuestionAnswer ''q1'' True ''2 + 2'' 10 (startTracker ''Lesson'' 0))))) \<and>
   questionsAnswered (st (recordQuestionAnswer ''q1'' False ''2 + 2'' 20
       (recordQuestionAnswer ''q1'' True ''2 + 2'' 10 (startTracker ''Lesson'' 0)))) =
     \<lparr> q_total = 1, q_correct = 1,
       q_questions = [(''q1'', \<lparr> qe_answered = True, qe_correct = True,
                                 qe_text = ''2 + 2'', qe_timestamp = 10 \<rparr>)] \<rparr>"
proof -
  let ?w = "recordQuestionAnswer ''q1'' True ''2 + 2'' 10 (startTracker ''Lesson'' 0)"
  have first: "questionsAnswered (st ?w) =
     \<lparr> q_total = 1, q_correct = 1,
       q_questions = [(''q1'', \<lparr> qe_answered = True, qe_correct = True,
                                 qe_text = ''2 + 2'', qe_timestamp = 10 \<rparr>)] \<rparr>"
    by (simp add: recordQuestionAnswer_def eval_start)
  then have present: "''q1'' \<in> fst ` set (q_questions (questionsAnswered (st ?w)))"
    by simp
  from recordQuestionAnswer_repeat_is_noop [of "''q1''" ?w False "''2 + 2''" 20] present
  have "questionsAnswered (st (recordQuestionAnswer ''q1'' False ''2 + 2'' 20 ?w)) =
      questionsAnswered (st ?w)"
    by blast
  with first present show ?thesis by simp
qed


lemma ledgerConsistent_recordQuestionAnswer:
  assumes inv: "ledgerConsistent (questionsAnswered (st w))"
  shows "ledgerConsistent (questionsAnswered (st (recordQuestionAnswer q c t now w)))"
proof (cases "getProp (q_questions (questionsAnswered (st w))) q")
  case Missing
  then have fresh: "\<And>v. setProp (q_questions (questionsAnswered (st w))) q v =
      q_questions (questionsAnswered (st w)) @ [(q, v)]"
    by (rule setProp_fresh)
  from Missing have notin: "q \<notin> fst ` set (q_questions (questionsAnswered (st w)))"
    by (simp add: getProp_Missing_iff map_of_eq_None_iff)
  show ?thesis
    using inv notin
    by (simp add: recordQuestionAnswer_def Let_def Missing fresh ledgerConsistent_def)
next
  case (Own e)
  then show ?thesis using inv by (simp add: recordQuestionAnswer_def Let_def)
next
  case Inherited
  then show ?thesis using inv by (simp add: recordQuestionAnswer_def Let_def)
qed

lemma ledgerConsistent_applyCall:
  assumes "ledgerConsistent (questionsAnswered (st w))"
  shows "ledgerConsistent (questionsAnswered (st (applyCall c w)))"
proof (cases c)
  case (RecordQuestionAnswer q c t now)
  then show ?thesis using assms by (simp add: ledgerConsistent_recordQuestionAnswer)
next
  case (ResetQuestions now)
  then show ?thesis by (simp add: resetQuestions_def ledgerConsistent_def)
next
  case (CompleteObjective n sc now)
  then show ?thesis using assms by (simp add: completeObjective_def Let_def)
next
  case (AddObjective n now)
  then show ?thesis using assms by (simp add: addObjective_def Let_def split: option.splits)
next
  case (RecordQuizScore n sc mx tq now)
  then show ?thesis using assms by (simp add: recordQuizScore_def Let_def)
next
  case (UpdateTopicProgress n p now)
  then show ?thesis using assms by (simp add: updateTopicProgress_def)
next
  case MarkCompleted
  then show ?thesis using assms by (simp add: markCompleted_def)
next
  case (SetLessonId i)
  then show ?thesis using assms by (simp add: setLessonId_def)
qed

lemma ledgerConsistent_run:
  "ledgerConsistent (questionsAnswered (st w)) \<Longrightarrow>
   ledgerConsistent (questionsAnswered (st (run calls w)))"
  unfolding run_def
  by (induction calls arbitrary: w) (simp_all add: ledgerConsistent_applyCall)

lemma ledgerConsistent_start:
  "ledgerConsistent (questionsAnswered (st (startTracker title now)))"
  by (simp add: startTracker_def initialState_def ledgerConsistent_def)

lemma card_keys_distinct:
  "distinct (map fst ps) \<Longrightarrow> card (set (map fst (filter P ps))) = length (filter P ps)"
proof -
  assume "distinct (map fst ps)"
  then have "distinct (map fst (filter P ps))"
    by (simp add: distinct_map_filter)
  then show ?thesis
    by (metis distinct_card length_map)
qed

text \<open>
  Claim C9. After any history of calls on a freshly started tracker (any calls of the public
  operations, those of \<^verbatim>\<open>recordQuestionAnswer\<close> and \<^verbatim>\<open>resetQuestions\<close> among them),
  \<open>q_total\<close> is the number of question ids stored in the ledger's map, \<open>q_correct\<close> is the
  number of ids stored with a correct answer, and so \<open>q_correct\<close> is at most \<open>q_total\<close>.
\<close>

theorem question_ledger_invariant:
  "q_total (questionsAnswered (st (run calls (startTracker title now)))) =
     card (set (map fst (q_questions (questionsAnswered (st (run calls (startTracker title now))))))) \<and>
   q_correct (questionsAnswered (st (run calls (startTracker title now)))) =
     card (set (map fst (filter (\<lambda>p. qe_correct (snd p))
       (q_questions (questionsAnswered (st (run calls (startTracker title now)))))))) \<and>
   q_correct (questionsAnswered (st (run calls (startTracker title now)))) \<le>
     q_total (questionsAnswered (st (run calls (startTracker title now))))"
proof -
  define qa where "qa = questionsAnswered (st (run calls (startTracker title now)))"
  have inv: "ledgerConsistent qa"
    unfolding qa_def by (rule ledgerConsistent_run [OF ledgerConsistent_start])
  then have d: "distinct (map fst (q_questions qa))"
    and t: "q_total qa = length (q_questions qa)"
    and c: "q_correct qa = length (filter (\<lambda>p. qe_correct (snd p)) (q_questions qa))"
    by (simp_all add: ledgerConsistent_def)
  have "card (set (map fst (filter (\<lambda>p. True) (q_questions qa)))) =
      length (filter (\<lambda>p. True) (q_questions qa))"
    using d by (rule card_keys_distinct)
  then have total: "card (set (map fst (q_questions qa))) = length (q_questions qa)"
    by simp
  have correct: "card (set (map fst (filter (\<lambda>p. qe_correct (snd p)) (q_questions qa)))) =
      length (filter (\<lambda>p. qe_correct (snd p)) (q_questions qa))"
    using d by (rule card_keys_distinct)
  show ?thesis
    unfolding qa_def [symmetric] using t c total correct by (simp add: length_filter_le)
qed

lemma answerQuestions_ledger:
  "questionsAnswered (st (answerQuestions n k (startTracker title now))) =
     \<lparr> q_total = n, q_correct = min n k,
       q_questions = map (\<lambda>i. (replicate (Suc i) CHR ''q'',
                           \<lparr> qe_answered = True, qe_correct = (i < k), qe_text = [],
                             qe_timestamp = i \<rparr>)) [0..<n] \<rparr>"
proof (induction n)
  case 0
  then show ?case
    by (simp add: startTracker_def initialState_def)
next
  case (Suc n)
  let ?w = "answerQuestions n k (startTracker title now)"
  let ?id = "replicate (Suc n) CHR ''q''"
  have "?id \<notin> fst ` set (q_questions (questionsAnswered (st ?w)))"
  proof
    assume "?id \<in> fst ` set (q_questions (questionsAnswered (st ?w)))"
    then obtain i where "i < n" and "replicate (Suc i) CHR ''q'' = ?id"
      unfolding Suc.IH by auto
    then have "length (replicate (Suc i) CHR ''q'') = length ?id"
      by (simp only:)
    with \<open>i < n\<close> show False by simp
  qed
  then have none: "map_of (q_questions (questionsAnswered (st ?w))) ?id = None"
    by (simp add: map_of_eq_None_iff)
  have "?id \<notin> set objectPrototypeKeys"
    by (auto simp: objectPrototypeKeys_def)
  with none have missing: "getProp (q_questions (questionsAnswered (st ?w))) ?id = Missing"
    by (simp add: getProp_Missing_iff)
  then have fresh: "\<And>v. setProp (q_questions (questionsAnswered (st ?w))) ?id v =
      q_questions (questionsAnswered (st ?w)) @ [(?id, v)]"
    by (rule setProp_fresh)
  have step: "questionsAnswered (st (answerQuestions (Suc n) k (startTracker title now))) =
      \<lparr> q_total = q_total (questionsAnswered (st ?w)) + 1,
        q_correct = (if n < k then q_correct (questionsAnswered (st ?w)) + 1
                     else q_correct (questionsAnswered (st ?w))),
        q_questions = q_questions (questionsAnswered (st ?w)) @
          [(?id, \<lparr> qe_answered = True, qe_correct = (n < k), qe_text = [],
                   qe_timestamp = n \<rparr>)] \<rparr>"
    by (simp add: recordQuestionAnswer_def Let_def missing fresh del: replicate.simps)
  show ?case
    unfolding step Suc.IH by (simp add: min_def del: replicate.simps)
qed

lemma answerQuestions_totals:
  "q_total (questionsAnswered (st (answerQuestions n k (startTracker title now)))) = n \<and>
   q_correct (questionsAnswered (st (answerQuestions n k (startTracker title now)))) = min n k"
  by (simp add: answerQuestions_ledger)

lemma percentage_of_ratio:
  assumes "c \<le> t" and "0 < t"
  shows "integerPercent (js_round (js_mul (js_div (Num (real c)) (Num (real t))) (Num 100)))"
proof -
  from assms have "0 \<le> real c / real t" and "real c / real t \<le> of_nat 1"
    by simp_all
  from toDouble_bounded [OF this] obtain r
    where r: "toDouble (real c / real t) = Num r" and "0 \<le> r" and "r \<le> 1"
    by auto
  then have "0 \<le> r * 100" and "r * 100 \<le> of_nat 100"
    by simp_all
  from toDouble_bounded [OF this] obtain r' where r': "toDouble (r * 100) = Num r'"
    and "0 \<le> r'" and "r' \<le> 100"
    by auto
  then have "0 \<le> \<lfloor>r' + 1 / 2\<rfloor>" and "\<lfloor>r' + 1 / 2\<rfloor> \<le> 100"
    by (simp_all add: floor_le_iff)
  with assms r r' show ?thesis
    by simp
qed

text \<open>
  Claim C10. \<^verbatim>\<open>getQuestionsStats\<close> returns the two counters as they are and divides only
  when the divisor is positive: with no question answered the percentage is 0, otherwise it
  is \<^verbatim>\<open>Math.round\<close> of the product that double arithmetic gives for
  \<open>q_correct / q_total * 100\<close>, the quotient rounded to a double and its hundredfold again.
  Whenever \<open>q_correct\<close> is at most \<open>q_total\<close> the percentage is an integer from 0 to 100, and
  it is one after every history of calls on a fresh tracker.
\<close>

theorem getQuestionsStats_guarded_division:
  "qs_total (getQuestionsStats w) = q_total (questionsAnswered (st w)) \<and>
   qs_correct (getQuestionsStats w) = q_correct (questionsAnswered (st w)) \<and>
   (q_total (questionsAnswered (st w)) = 0 \<longrightarrow>
      qs_percentage (getQuestionsStats w) = Num 0) \<and>
   (q_total (questionsAnswered (st w)) > 0 \<longrightarrow>
      qs_percentage (getQuestionsStats w) =
        js_round (js_mul (toDouble (real (q_correct (questionsAnswered (st w))) /
                                    real (q_total (questionsAnswered (st w)))))
                         (Num 100))) \<and>
   (q_correct (questionsAnswered (st w)) \<le> q_total (questionsAnswered (st w)) \<longrightarrow>
      integerPercent (qs_percentage (getQuestionsStats w))) \<and>
   integerPercent (qs_percentage (getQuestionsStats (run calls (startTracker title now))))"
proof -
  have ratio: "integerPercent (qs_percentage (getQuestionsStats v))"
    if "q_correct (questionsAnswered (st v)) \<le> q_total (questionsAnswered (st v))" for v
  proof (cases "q_total (questionsAnswered (st v)) = 0")
    case True
    then show ?thesis
      by (simp add: getQuestionsStats_def)
  next
    case False
    then have "0 < q_total (questionsAnswered (st v))"
      by simp
    from percentage_of_ratio [OF that this] False show ?thesis
      by (simp add: getQuestionsStats_def)
  qed
  have "ledgerConsistent (questionsAnswered (st (run calls (startTracker title now))))"
    by (rule ledgerConsistent_run [OF ledgerConsistent_start])
  then have "q_correct (questionsAnswered (st (run calls (startTracker title now)))) \<le>
      q_total (questionsAnswered (st (run calls (startTracker title now))))"
    by (simp add: ledgerConsistent_def)
  then have reachable:
    "integerPercent (qs_percentage (getQuestionsStats (run calls (startTracker title now))))"
    by (rule ratio)
  have zero: "q_total (questionsAnswered (st w)) = 0 \<longrightarrow>
      qs_percentage (getQuestionsStats w) = Num 0"
    by (simp add: getQuestionsStats_def)
  have "real (q_total (questionsAnswered (st w))) \<noteq> 0"
    if "q_total (questionsAnswered (st w)) > 0"
    using that by simp
  then have "js_div (Num (real (q_correct (questionsAnswered (st w)))))
                    (Num (real (q_total (questionsAnswered (st w))))) =
      toDouble (real (q_correct (questionsAnswered (st w))) /
                real (q_total (questionsAnswered (st w))))"
    if "q_total (questionsAnswered (st w)) > 0"
    using that by simp
  then have "q_total (questionsAnswered (st w)) > 0 \<longrightarrow>
      qs_percentage (getQuestionsStats w) =
        js_round (js_mul (toDouble (real (q_correct (questionsAnswered (st w))) /
                                    real (q_total (questionsAnswered (st w)))))
                         (Num 100))"
    by (simp add: getQuestionsStats_def)
  with zero reachable ratio [of w] show ?thesis
    by (simp add: getQuestionsStats_def)
qed

text \<open>
  The witness: no answers; two correct answers of three, 67 per cent; and 23 correct answers
  of 40, where the doubles give \<open>57.49999999999999\<close> and the percentage is 57.
\<close>

theorem getQuestionsStats_guarded_division_witness:
  "q_total (questionsAnswered (st (startTracker ''Lesson'' 0))) = 0 \<and>
   qs_percentage (getQuestionsStats (startTracker ''Lesson'' 0)) = Num 0 \<and>
   q_total (questionsAnswered (st (run [RecordQuestionAnswer ''q1'' True [] 1,
      RecordQuestionAnswer ''q2'' False [] 2, RecordQuestionAnswer ''q3'' True [] 3]
      (startTracker ''Lesson'' 0)))) = 3 \<and>
   q_correct (questionsAnswered (st (run [RecordQuestionAnswer ''q1'' True [] 1,
      RecordQuestionAnswer ''q2'' False [] 2, RecordQuestionAnswer ''q3'' True [] 3]
      (startTracker ''Lesson'' 0)))) = 2 \<and>
   qs_percentage (getQuestionsStats (run [RecordQuestionAnswer ''q1'' True [] 1,
      RecordQuestionAnswer ''q2'' False [] 2, RecordQuestionAnswer ''q3'' True [] 3]
      (startTracker ''Lesson'' 0))) = Num 67 \<and>
   q_total (questionsAnswered (st (answerQuestions 40 23 (startTracker ''Lesson'' 0)))) = 40 \<and>
   q_correct (questionsAnswered (st (answerQuestions 40 23 (startTracker ''Lesson'' 0)))) = 23 \<and>
   js_mul (toDouble (23 / 40)) (Num 100) = Num (8092405580431359 / 140737488355328) \<and>
   qs_percentage (getQuestionsStats (answerQuestions 40 23 (startTracker ''Lesson'' 0))) = Num 57"
proof -
  let ?w0 = "startTracker ''Lesson'' 0"
  let ?w3 = "run [RecordQuestionAnswer ''q1'' True [] 1,
      RecordQuestionAnswer ''q2'' False [] 2, RecordQuestionAnswer ''q3'' True [] 3] ?w0"
  let ?w40 = "answerQuestions 40 23 ?w0"
  have t0: "q_total (questionsAnswered (st ?w0)) = 0"
    by (simp add: startTracker_def initialState_def)
  have t3: "q_total (questionsAnswered (st ?w3)) = 3"
    and c3: "q_correct (questionsAnswered (st ?w3)) = 2"
    by (simp_all add: run_def recordQuestionAnswer_def eval_start)
  have t40: "q_total (questionsAnswered (st ?w40)) = 40"
    and c40: "q_correct (questionsAnswered (st ?w40)) = 23"
    using answerQuestions_totals [of 40 23 "''Lesson''" 0] by simp_all
  have m3: "js_round (js_mul (toDouble (real 2 / real 3)) (Num 100)) = Num 67"
    by (simp add: eval_double)
  have m40: "js_mul (toDouble (23 / 40)) (Num 100) = Num (8092405580431359 / 140737488355328)"
    by (simp add: eval_double)
  have r40: "js_round (js_mul (toDouble (real 23 / real 40)) (Num 100)) = Num 57"
    by (simp add: eval_double)
  from getQuestionsStats_guarded_division [of ?w0] t0
  have p0: "qs_percentage (getQuestionsStats ?w0) = Num 0"
    by blast
  from getQuestionsStats_guarded_division [of ?w3] t3
  have "qs_percentage (getQuestionsStats ?w3) =
      js_round (js_mul (toDouble (real (q_correct (questionsAnswered (st ?w3))) /
                                  real (q_total (questionsAnswered (st ?w3))))) (Num 100))"
    by simp
  then have p3: "qs_percentage (getQuestionsStats ?w3) = Num 67"
    unfolding t3 c3 by (simp only: m3)
  from getQuestionsStats_guarded_division [of ?w40] t40
  have "qs_percentage (getQuestionsStats ?w40) =
      js_round (js_mul (toDouble (real (q_correct (questionsAnswered (st ?w40))) /
                                  real (q_total (questionsAnswered (st ?w40))))) (Num 100))"
    by simp
  then have p40: "qs_percentage (getQuestionsStats ?w40) = Num 57"
    unfolding t40 c40 by (simp only: r40)
  from t0 p0 t3 c3 p3 t40 c40 m40 p40 show ?thesis
    by (intro conjI)
qed

subsection \<open>Quiz scores\<close>

lemma js_gt_trans: "js_gt a b \<Longrightarrow> js_gt b c \<Longrightarrow> js_gt a c"
  by (cases a; cases b; cases c) simp_all

lemma recordQuizScore_kept:
  assumes "\<not> quizImproves (quizPercentage score maxScore) (getProp (quizScores (st w)) quizName)"
  shows "st (recordQuizScore quizName score maxScore totalQuestions now w) = st w"
  using assms by (simp add: recordQuizScore_def Let_def)

lemma recordQuizScore_other_name:
  assumes "quizName' \<noteq> quizName"
  shows "map_of (quizScores (st (recordQuizScore quizName score maxScore totalQuestions now w)))
           quizName' = map_of (quizScores (st w)) quizName'"
  using assms by (simp add: recordQuizScore_def Let_def map_of_setProp_other)

lemma recordQuizScore_step:
  assumes stored: "map_of (quizScores (st w)) quizName = Some q"
  shows "\<exists>q'. map_of (quizScores (st (recordQuizScore quizName score maxScore totalQuestions now w)))
                 quizName = Some q' \<and>
              (q' = q \<or> js_gt (quiz_percentage q') (quiz_percentage q))"
proof -
  from stored have own: "getProp (quizScores (st w)) quizName = Own q"
    by (simp add: getProp_Own_iff)
  show ?thesis
  proof (cases "js_gt (quizPercentage score maxScore) (quiz_percentage q)")
    case False
    then have "st (recordQuizScore quizName score maxScore totalQuestions now w) = st w"
      by (intro recordQuizScore_kept) (simp add: own quizImproves_def)
    with stored show ?thesis by simp
  next
    case True
    show ?thesis
    proof (cases "quizName = ''__proto__''")
      case True
      then have "quizScores (st (recordQuizScore quizName score maxScore totalQuestions now w)) =
          quizScores (st w)"
        by (simp add: recordQuizScore_def Let_def setProp_def)
      with stored show ?thesis by simp
    next
      case False
      with True show ?thesis
        by (simp add: recordQuizScore_def Let_def own quizImproves_def map_of_setProp_same)
    qed
  qed
qed

lemma applyCall_quiz_step:
  assumes stored: "map_of (quizScores (st w)) quizName = Some q"
  shows "\<exists>q'. map_of (quizScores (st (applyCall c w))) quizName = Some q' \<and>
              (quiz_percentage q' = quiz_percentage q \<or>
               js_gt (quiz_percentage q') (quiz_percentage q))"
proof (cases c)
  case (RecordQuizScore n sc mx tq now)
  show ?thesis
  proof (cases "n = quizName")
    case True
    with RecordQuizScore recordQuizScore_step [OF stored, of sc mx tq now]
    show ?thesis by auto
  next
    case False
    then have "map_of (quizScores (st (recordQuizScore n sc mx tq now w))) quizName =
        map_of (quizScores (st w)) quizName"
      by (intro recordQuizScore_other_name) simp
    with RecordQuizScore stored show ?thesis by simp
  qed
next
  case (CompleteObjective n sc now)
  then show ?thesis using stored by (simp add: completeObjective_def Let_def)
next
  case (AddObjective n now)
  then show ?thesis using stored by (simp add: addObjective_def Let_def split: option.splits)
next
  case (RecordQuestionAnswer q c t now)
  then show ?thesis using stored
    by (simp add: recordQuestionAnswer_def Let_def split: propval.splits)
next
  case (UpdateTopicProgress n p now)
  then show ?thesis using stored by (simp add: updateTopicProgress_def)
next
  case MarkCompleted
  then show ?thesis using stored by (simp add: markCompleted_def)
next
  case (SetLessonId i)
  then show ?thesis using stored by (simp add: setLessonId_def)
next
  case (ResetQuestions now)
  then show ?thesis using stored by (simp add: resetQuestions_def)
qed

lemma run_quiz_monotone:
  assumes "map_of (quizScores (st w)) quizName = Some q"
  shows "\<exists>q'. map_of (quizScores (st (run calls w))) quizName = Some q' \<and>
              (quiz_percentage q' = quiz_percentage q \<or>
               js_gt (quiz_percentage q') (quiz_percentage q))"
  using assms
proof (induction calls arbitrary: w q)
  case Nil
  then show ?case by (simp add: run_def)
next
  case (Cons c calls)
  from applyCall_quiz_step [OF Cons.prems, of c]
  obtain q1 where q1: "map_of (quizScores (st (applyCall c w))) quizName = Some q1"
    and s1: "quiz_percentage q1 = quiz_percentage q \<or>
             js_gt (quiz_percentage q1) (quiz_percentage q)"
    by blast
  from Cons.IH [OF q1]
  obtain q2 where q2: "map_of (quizScores (st (run calls (applyCall c w)))) quizName = Some q2"
    and s2: "quiz_percentage q2 = quiz_percentage q1 \<or>
             js_gt (quiz_percentage q2) (quiz_percentage q1)"
    by blast
  have "quiz_percentage q2 = quiz_percentage q \<or>
        js_gt (quiz_percentage q2) (quiz_percentage q)"
    using s1 s2 js_gt_trans by metis
  with q2 show ?case by (simp add: run_def)
qed

text \<open>
  Claim C5. For a quiz name with a stored entry, a submission whose rounded percentage is
  not greater than the stored one leaves the stored quiz scores unchanged; after any
  submission the entry is the old one or one with a greater percentage; and after any
  history of calls the stored percentage is the old one or a greater one. Submitting 60%
  and then 40% under one name keeps 60% (the witness).
\<close>

theorem recordQuizScore_never_lowers:
  assumes "map_of (quizScores (st w)) quizName = Some q"
  shows "(\<not> js_gt (quizPercentage score maxScore) (quiz_percentage q) \<longrightarrow>
            quizScores (st (recordQuizScore quizName score maxScore totalQuestions now w)) =
              quizScores (st w)) \<and>
         (\<exists>q'. map_of (quizScores (st (recordQuizScore quizName score maxScore totalQuestions
                          now w))) quizName = Some q' \<and>
               (q' = q \<or> js_gt (quiz_percentage q') (quiz_percentage q))) \<and>
         (\<exists>q'. map_of (quizScores (st (run calls w))) quizName = Some q' \<and>
               (quiz_percentage q' = quiz_percentage q \<or>
                js_gt (quiz_percentage q') (quiz_percentage q)))"
proof (intro conjI impI)
  assume "\<not> js_gt (quizPercentage score maxScore) (quiz_percentage q)"
  moreover from assms have "getProp (quizScores (st w)) quizName = Own q"
    by (simp add: getProp_Own_iff)
  ultimately have "st (recordQuizScore quizName score maxScore totalQuestions now w) = st w"
    by (intro recordQuizScore_kept) (simp add: quizImproves_def)
  then show "quizScores (st (recordQuizScore quizName score maxScore totalQuestions now w)) =
      quizScores (st w)"
    by simp
next
  show "\<exists>q'. map_of (quizScores (st (recordQuizScore quizName score maxScore totalQuestions
                          now w))) quizName = Some q' \<and>
               (q' = q \<or> js_gt (quiz_percentage q') (quiz_percentage q))"
    using assms by (rule recordQuizScore_step)
next
  show "\<exists>q'. map_of (quizScores (st (run calls w))) quizName = Some q' \<and>
               (quiz_percentage q' = quiz_percentage q \<or>
                js_gt (quiz_percentage q') (quiz_percentage q))"
    using assms by (rule run_quiz_monotone)
qed

theorem recordQuizScore_never_lowers_witness:
  "map_of (quizScores (st (recordQuizScore ''Quiz'' 6 10 None 1 (startTracker ''Lesson'' 0))))
     ''Quiz'' =
     Some \<lparr> quiz_score = 6, quiz_maxScore = 10, quiz_percentage = Num 60,
            quiz_totalQuestions = 10, quiz_timestamp = 1 \<rparr> \<and>
   quizPercentage 4 10 = Num 40 \<and>
   quizScores (st (recordQuizScore ''Quiz'' 4 10 None 2
       (recordQuizScore ''Quiz'' 6 10 None 1 (startTracker ''Lesson'' 0)))) =
     [(''Quiz'', \<lparr> quiz_score = 6, quiz_maxScore = 10, quiz_percentage = Num 60,
                   quiz_totalQuestions = 10, quiz_timestamp = 1 \<rparr>)]"
proof -
  let ?w = "recordQuizScore ''Quiz'' 6 10 None 1 (startTracker ''Lesson'' 0)"
  let ?q = "\<lparr> quiz_score = 6, quiz_maxScore = 10, quiz_percentage = Num 60,
              quiz_totalQuestions = 10, quiz_timestamp = 1 \<rparr>"
  have "quizPercentage 6 10 = Num 60"
    by (simp add: quizPercentage_def eval_double)
  then have first: "quizScores (st ?w) = [(''Quiz'', ?q)]"
    by (simp add: recordQuizScore_def quizImproves_def eval_start)
  then have stored: "map_of (quizScores (st ?w)) ''Quiz'' = Some ?q"
    by simp
  have p: "quizPercentage 4 10 = Num 40"
    by (simp add: quizPercentage_def eval_double)
  then have "\<not> js_gt (quizPercentage 4 10) (quiz_percentage ?q)"
    by simp
  with recordQuizScore_never_lowers [OF stored, of 4 10 None 2 "[]"]
  have "quizScores (st (recordQuizScore ''Quiz'' 4 10 None 2 ?w)) = quizScores (st ?w)"
    by blast
  with first stored p show ?thesis by simp
qed

lemma length_update_present:
  "k \<in> fst ` set al \<Longrightarrow> length (AList.update k v al) = length al"
  by (induction al) auto

lemma length_setProp_present:
  assumes "map_of obj k = Some v0"
  shows "length (setProp obj k v) = length obj"
proof -
  from assms have "k \<in> fst ` set obj"
    by (metis map_of_eq_None_iff option.distinct(1))
  then show ?thesis
    by (simp add: setProp_def length_update_present)
qed

text \<open>
  Claim C3, as the code has it. \<^verbatim>\<open>recordQuizScore\<close> looks a quiz up under its exact name:
  a call leaves the entry stored under every other name as it was, also under a name with the
  same canonical form, and a call under a name that has a stored entry keeps or replaces that
  one entry and adds none.
\<close>

theorem recordQuizScore_keyed_by_exact_name:
  "(quizName' \<noteq> quizName \<longrightarrow>
      map_of (quizScores (st (recordQuizScore quizName score maxScore totalQuestions now w)))
        quizName' = map_of (quizScores (st w)) quizName') \<and>
   (map_of (quizScores (st w)) quizName = Some q \<longrightarrow>
      length (quizScores (st (recordQuizScore quizName score maxScore totalQuestions now w))) =
        length (quizScores (st w)))"
proof (intro conjI impI)
  assume "quizName' \<noteq> quizName"
  then show "map_of (quizScores (st (recordQuizScore quizName score maxScore totalQuestions
      now w))) quizName' = map_of (quizScores (st w)) quizName'"
    by (rule recordQuizScore_other_name)
next
  assume "map_of (quizScores (st w)) quizName = Some q"
  then show "length (quizScores (st (recordQuizScore quizName score maxScore totalQuestions
      now w))) = length (quizScores (st w))"
    by (simp add: recordQuizScore_def Let_def length_setProp_present)
qed

theorem recordQuizScore_keyed_by_exact_name_witness:
  "''quiz1'' \<noteq> ''Quiz 1'' \<and>
   map_of (quizScores (st (recordQuizScore ''Quiz 1'' 6 10 None 1 (startTracker ''Lesson'' 0))))
     ''Quiz 1'' =
     Some \<lparr> quiz_score = 6, quiz_maxScore = 10, quiz_percentage = Num 60,
            quiz_totalQuestions = 10, quiz_timestamp = 1 \<rparr> \<and>
   map_of (quizScores (st (recordQuizScore ''Quiz 1'' 8 10 None 2
       (recordQuizScore ''Quiz 1'' 6 10 None 1 (startTracker ''Lesson'' 0))))) ''quiz1'' = None \<and>
   length (quizScores (st (recordQuizScore ''Quiz 1'' 8 10 None 2
       (recordQuizScore ''Quiz 1'' 6 10 None 1 (startTracker ''Lesson'' 0))))) = 1"
proof -
  let ?w = "recordQuizScore ''Quiz 1'' 6 10 None 1 (startTracker ''Lesson'' 0)"
  let ?q = "\<lparr> quiz_score = 6, quiz_maxScore = 10, quiz_percentage = Num 60,
              quiz_totalQuestions = 10, quiz_timestamp = 1 \<rparr>"
  have "quizPercentage 6 10 = Num 60"
    by (simp add: quizPercentage_def eval_double)
  then have first: "quizScores (st ?w) = [(''Quiz 1'', ?q)]"
    by (simp add: recordQuizScore_def quizImproves_def eval_start)
  then have stored: "map_of (quizScores (st ?w)) ''Quiz 1'' = Some ?q"
    by simp
  have differ: "''quiz1'' \<noteq> ''Quiz 1''"
    by simp
  from recordQuizScore_keyed_by_exact_name
         [of "''quiz1''" "''Quiz 1''" 8 10 None 2 ?w ?q] differ stored
  have "map_of (quizScores (st (recordQuizScore ''Quiz 1'' 8 10 None 2 ?w))) ''quiz1'' =
          map_of (quizScores (st ?w)) ''quiz1''"
    and "length (quizScores (st (recordQuizScore ''Quiz 1'' 8 10 None 2 ?w))) =
          length (quizScores (st ?w))"
    by blast+
  with first stored differ show ?thesis by simp
qed

text \<open>
  The claim as the specification words it fails: \<open>''Quiz 1''\<close> and \<open>''quiz1''\<close> have one
  canonical form, yet a score recorded under the second name does not reach the entry of the
  first. The lower 40% is stored beside the 60% as an entry of its own.
\<close>

theorem recordQuizScore_names_not_canonicalized:
  "normalizedName ''Quiz 1'' = normalizedName ''quiz1'' \<and>
   quizScores (st (recordQuizScore ''quiz1'' 4 10 None 2
       (recordQuizScore ''Quiz 1'' 6 10 None 1 (startTracker ''Lesson'' 0)))) =
     [(''Quiz 1'', \<lparr> quiz_score = 6, quiz_maxScore = 10, quiz_percentage = Num 60,
                     quiz_totalQuestions = 10, quiz_timestamp = 1 \<rparr>),
      (''quiz1'', \<lparr> quiz_score = 4, quiz_maxScore = 10, quiz_percentage = Num 40,
                    quiz_totalQuestions = 10, quiz_timestamp = 2 \<rparr>)]"
proof
  show "normalizedName ''Quiz 1'' = normalizedName ''quiz1''"
    by code_simp
  have "quizPercentage 6 10 = Num 60" and "quizPercentage 4 10 = Num 40"
    by (simp_all add: quizPercentage_def eval_double)
  then show "quizScores (st (recordQuizScore ''quiz1'' 4 10 None 2
       (recordQuizScore ''Quiz 1'' 6 10 None 1 (startTracker ''Lesson'' 0)))) =
     [(''Quiz 1'', \<lparr> quiz_score = 6, quiz_maxScore = 10, quiz_percentage = Num 60,
                     quiz_totalQuestions = 10, quiz_timestamp = 1 \<rparr>),
      (''quiz1'', \<lparr> quiz_score = 4, quiz_maxScore = 10, quiz_percentage = Num 40,
                    quiz_totalQuestions = 10, quiz_timestamp = 2 \<rparr>)]"
    by (simp add: recordQuizScore_def quizImproves_def eval_start)
qed

subsection \<open>Which operations report\<close>

text \<open>
  Claim C4, as the code has it. \<^verbatim>\<open>completeObjective\<close>, \<^verbatim>\<open>recordQuizScore\<close>,
  \<^verbatim>\<open>updateTopicProgress\<close> and \<^verbatim>\<open>resetQuestions\<close> send one progress update, built from the
  state they leave, in every call; \<^verbatim>\<open>recordQuestionAnswer\<close> sends one exactly when it
  records the answer.
\<close>

theorem reporting_operations_send_progress_update:
  "sent (completeObjective objectiveName score now w) =
     sent w @ [progressUpdate now (st (completeObjective objectiveName score now w))] \<and>
   sent (recordQuizScore quizName score maxScore totalQuestions now w) =
     sent w @ [progressUpdate now
                 (st (recordQuizScore quizName score maxScore totalQuestions now w))] \<and>
   sent (updateTopicProgress topicName percentage now w) =
     sent w @ [progressUpdate now (st (updateTopicProgress topicName percentage now w))] \<and>
   sent (resetQuestions now w) = sent w @ [progressUpdate now (st (resetQuestions now w))] \<and>
   sent (recordQuestionAnswer questionId isCorrect questionText now w) =
     (if getProp (q_questions (questionsAnswered (st w))) questionId = Missing
      then sent w @ [progressUpdate now
                       (st (recordQuestionAnswer questionId isCorrect questionText now w))]
      else sent w)"
proof (intro conjI)
  show "sent (completeObjective objectiveName score now w) =
     sent w @ [progressUpdate now (st (completeObjective objectiveName score now w))]"
    by (simp add: completeObjective_def Let_def)
  show "sent (recordQuizScore quizName score maxScore totalQuestions now w) =
     sent w @ [progressUpdate now
                 (st (recordQuizScore quizName score maxScore totalQuestions now w))]"
    by (simp add: recordQuizScore_def Let_def)
  show "sent (updateTopicProgress topicName percentage now w) =
     sent w @ [progressUpdate now (st (updateTopicProgress topicName percentage now w))]"
    by (simp add: updateTopicProgress_def)
  show "sent (resetQuestions now w) = sent w @ [progressUpdate now (st (resetQuestions now w))]"
    by (simp add: resetQuestions_def)
  show "sent (recordQuestionAnswer questionId isCorrect questionText now w) =
     (if getProp (q_questions (questionsAnswered (st w))) questionId = Missing
      then sent w @ [progressUpdate now
                       (st (recordQuestionAnswer questionId isCorrect questionText now w))]
      else sent w)"
    by (cases "getProp (q_questions (questionsAnswered (st w))) questionId")
       (simp_all add: recordQuestionAnswer_def Let_def)
qed

theorem reporting_operations_send_progress_update_witness:
  "getProp (q_questions (questionsAnswered (st (startTracker ''Lesson'' 0)))) ''q1'' = Missing \<and>
   pulses (recordQuestionAnswer ''q1'' True [] 1 (startTracker ''Lesson'' 0)) = 1 \<and>
   pulses (recordQuestionAnswer ''q1'' False [] 2
            (recordQuestionAnswer ''q1'' True [] 1 (startTracker ''Lesson'' 0))) = 1 \<and>
   pulses (completeObjective ''Ohm's Law'' 100 1 (startTracker ''Lesson'' 0)) = 1"
proof -
  let ?w0 = "startTracker ''Lesson'' 0"
  let ?w1 = "recordQuestionAnswer ''q1'' True [] 1 ?w0"
  have m0: "getProp (q_questions (questionsAnswered (st ?w0))) ''q1'' = Missing"
    by (simp add: eval_start)
  have m1: "getProp (q_questions (questionsAnswered (st ?w1))) ''q1'' \<noteq> Missing"
    by (simp add: recordQuestionAnswer_def eval_start)
  have s0: "sent ?w0 = []"
    by (simp add: startTracker_def)
  from reporting_operations_send_progress_update [of "''Ohm's Law''" 100 1 ?w0 "[]" 0 None "[]" 0
         "''q1''" True "[]"] m0 s0
  have a: "sent ?w1 = [progressUpdate 1 (st ?w1)]"
    and c: "sent (completeObjective ''Ohm's Law'' 100 1 ?w0) =
      [progressUpdate 1 (st (completeObjective ''Ohm's Law'' 100 1 ?w0))]"
    by simp_all
  from reporting_operations_send_progress_update [of "[]" 0 2 ?w1 "[]" 0 None "[]" 0
         "''q1''" False "[]"] m1
  have b: "sent (recordQuestionAnswer ''q1'' False [] 2 ?w1) = sent ?w1"
    by simp
  show ?thesis
    unfolding pulses_def b a c using m0 by (simp add: progressUpdate_def)
qed

text \<open>
  The claim as the specification words it fails for two of the operations it lists:
  \<^verbatim>\<open>addObjective\<close> and \<^verbatim>\<open>setLessonId\<close> change the state and send nothing.
\<close>

theorem addObjective_setLessonId_send_nothing:
  "objectives (st (startTracker ''Lesson'' 0)) = [] \<and>
   objectives (st (addObjective ''Ohm's Law'' 1 (startTracker ''Lesson'' 0))) =
     [\<lparr> obj_name = ''Ohm's Law'', obj_completed = False, obj_score = 0, obj_timestamp = 1 \<rparr>] \<and>
   sent (addObjective ''Ohm's Law'' 1 (startTracker ''Lesson'' 0)) = [] \<and>
   lessonId (st (startTracker ''Lesson'' 0)) = None \<and>
   lessonId (st (setLessonId ''7'' (startTracker ''Lesson'' 0))) = Some ''7'' \<and>
   sent (setLessonId ''7'' (startTracker ''Lesson'' 0)) = []"
  by (simp add: addObjective_def setLessonId_def startTracker_def initialState_def Let_def)

subsection \<open>The scorer\<close>

text \<open>What the two time components compute: the cap is 100 in both branches.\<close>

lemma timeProgress_eq:
  "timeProgress False s =
     js_min (Num 100) (js_mul (toDouble (real (activeTime s) / 30)) (Num 40)) \<and>
   timeProgress True s =
     js_min (Num 100) (js_mul (toDouble (real (activeTime s) / 30)) (Num 25))"
  by (simp add: timeProgress_def minActiveTime_def)

text \<open>A session without any activity scores the objectives' 15 points.\<close>

lemma calculateProgress_fresh: "calculateProgress (initialState title now) = Num 15"
proof -
  have "toDouble 15 = Num 15"
    by (simp add: eval_double)
  then show ?thesis
    by (simp add: calculateProgress_def initialState_def hasQuizzes_def hasQuestions_def
        timeProgress_def scrollProgress_def interactionProgress_def objectiveProgress_def
        hasObjectives_def minActiveTime_def toDouble_def [of 0])
qed

text \<open>On a page that stays focused, each of the first 59 seconds after the last activity
  counts as active time.\<close>

lemma secondsPass_focused:
  assumes "isActive s" and "lastActivity s = startTime s" and "n < 60"
  shows "secondsPass n s =
     (if n = 0 then s else s\<lparr>totalTime := int n, activeTime := activeTime s + n\<rparr>)"
  using assms
proof (induction n)
  case 0
  then show ?case by simp
next
  case (Suc n)
  then have IH: "secondsPass n s =
      (if n = 0 then s else s\<lparr>totalTime := int n, activeTime := activeTime s + n\<rparr>)"
    by simp
  from Suc.prems have "1000 * int (Suc n) < idleTimeout"
    by (simp add: idleTimeout_def)
  with Suc.prems show ?case
    by (cases "n = 0") (simp_all add: IH timeTick_def Let_def)
qed

text \<open>
  Claim C2 at a session that has been open and focused for 45 seconds, with no other
  activity, and at one with 60 seconds of active time. The specification caps the time
  component at its weight, 40 in the standard branch and 25 in the quiz-aware one; the code
  caps it at 100, and the component is 60 after 45 seconds and 80 (or 50) after 60.
\<close>

theorem timeProgress_exceeds_weight:
  "activeTime (secondsPass 45 (initialState ''Lesson'' 0)) = 45 \<and>
   quizAware (secondsPass 45 (initialState ''Lesson'' 0)) = False \<and>
   timeProgress False (secondsPass 45 (initialState ''Lesson'' 0)) = Num 60 \<and>
   calculateProgress (secondsPass 45 (initialState ''Lesson'' 0)) = Num 75 \<and>
   timeProgress False ((initialState ''Lesson'' 0)\<lparr>activeTime := 60\<rparr>) = Num 80 \<and>
   timeProgress True ((initialState ''Lesson'' 0)\<lparr>activeTime := 60\<rparr>) = Num 50"
proof -
  have s45: "secondsPass 45 (initialState ''Lesson'' 0) =
      (initialState ''Lesson'' 0)\<lparr>totalTime := 45, activeTime := 45\<rparr>"
    by (simp add: secondsPass_focused initialState_def)
  have "activeTime ((initialState ''Lesson'' 0)\<lparr>totalTime := 45, activeTime := 45\<rparr>) = 45"
    and "quizAware ((initialState ''Lesson'' 0)\<lparr>totalTime := 45, activeTime := 45\<rparr>) = False"
    and "timeProgress False ((initialState ''Lesson'' 0)\<lparr>totalTime := 45, activeTime := 45\<rparr>) =
      Num 60"
    and "calculateProgress ((initialState ''Lesson'' 0)\<lparr>totalTime := 45, activeTime := 45\<rparr>) =
      Num 75"
    and "timeProgress False ((initialState ''Lesson'' 0)\<lparr>activeTime := 60\<rparr>) = Num 80"
    and "timeProgress True ((initialState ''Lesson'' 0)\<lparr>activeTime := 60\<rparr>) = Num 50"
    by (simp_all add: eval_scorer initialState_def eval_double)
  then show ?thesis
    unfolding s45 by (intro conjI)
qed

text \<open>
  Claim C1 at two sessions a page can produce with one call. A quiz scored \<open>-10\<close> out of 10
  (negative marking) stores \<open>-100\<close> per cent and the progress is \<open>-15\<close>; a quiz scored 0 out
  of 0 stores \<open>NaN\<close> and the progress is \<open>NaN\<close>. The result is capped at 100 from above
  only, and the division by \<open>maxScore\<close> is not guarded.
\<close>

theorem calculateProgress_out_of_range:
  "quizPercentage (- 10) 10 = Num (- 100) \<and>
   calculateProgress (st (recordQuizScore ''Quiz'' (- 10) 10 None 1 (startTracker ''Lesson'' 0))) =
     Num (- 15) \<and>
   quizPercentage 0 0 = NaN \<and>
   calculateProgress (st (recordQuizScore ''Quiz'' 0 0 None 1 (startTracker ''Lesson'' 0))) = NaN"
proof (intro conjI)
  show p: "quizPercentage (- 10) 10 = Num (- 100)"
    by (simp add: quizPercentage_def eval_double)
  show "quizPercentage 0 0 = NaN"
    by (simp add: quizPercentage_def signed_inf_def)
  from p show "calculateProgress (st (recordQuizScore ''Quiz'' (- 10) 10 None 1
      (startTracker ''Lesson'' 0))) = Num (- 15)"
    by (simp add: recordQuizScore_def quizImproves_def eval_start eval_scorer eval_double)
  show "calculateProgress (st (recordQuizScore ''Quiz'' 0 0 None 1
      (startTracker ''Lesson'' 0))) = NaN"
    by (simp add: recordQuizScore_def quizImproves_def quizPercentage_def eval_start
        eval_scorer eval_double)
qed

subsection \<open>Objectives\<close>

lemma find_as_filter:
  "find P xs = (case filter P xs of [] \<Rightarrow> None | e # es \<Rightarrow> Some e)"
  by (induction xs) simp_all

lemma filter_updateFirst_same:
  assumes "\<And>x. P x \<Longrightarrow> P (f x)"
  shows "filter P (updateFirst P f xs) = (case filter P xs of [] \<Rightarrow> [] | e # es \<Rightarrow> f e # es)"
  using assms by (induction xs) simp_all

lemma filter_updateFirst_other:
  assumes "\<And>x. P x \<Longrightarrow> \<not> Q x \<and> \<not> Q (f x)"
  shows "filter Q (updateFirst P f xs) = filter Q xs"
  using assms by (induction xs) auto

lemma sameObjective_update [simp]:
  "sameObjective k (e\<lparr>obj_completed := c, obj_score := s\<rparr>) = sameObjective k e"
  by (simp add: sameObjective_def)

lemma completeObjective_filter:
  "filter (sameObjective k) (objectives (st (completeObjective n sc now w))) =
     (if k = normalizedName n
      then (case filter (sameObjective k) (objectives (st w)) of
              [] \<Rightarrow> [\<lparr> obj_name = n, obj_completed = True, obj_score = sc, obj_timestamp = now \<rparr>]
            | e # es \<Rightarrow> e\<lparr>obj_completed := True, obj_score := max (obj_score e) sc\<rparr> # es)
      else filter (sameObjective k) (objectives (st w)))"
proof (cases "filter (sameObjective (normalizedName n)) (objectives (st w))")
  case Nil
  then have none: "find (sameObjective (normalizedName n)) (objectives (st w)) = None"
    by (simp add: find_as_filter)
  show ?thesis
    using Nil by (auto simp: completeObjective_def Let_def none sameObjective_def)
next
  case (Cons e es)
  then have some: "find (sameObjective (normalizedName n)) (objectives (st w)) = Some e"
    by (simp add: find_as_filter)
  have same: "filter (sameObjective (normalizedName n))
      (updateFirst (sameObjective (normalizedName n))
         (\<lambda>e. e\<lparr>obj_completed := True, obj_score := max (obj_score e) sc\<rparr>) (objectives (st w))) =
      e\<lparr>obj_completed := True, obj_score := max (obj_score e) sc\<rparr> # es"
    by (subst filter_updateFirst_same) (simp_all add: Cons)
  have other: "k \<noteq> normalizedName n \<Longrightarrow> filter (sameObjective k)
      (updateFirst (sameObjective (normalizedName n))
         (\<lambda>e. e\<lparr>obj_completed := True, obj_score := max (obj_score e) sc\<rparr>) (objectives (st w))) =
      filter (sameObjective k) (objectives (st w))"
    by (rule filter_updateFirst_other) (auto simp: sameObjective_def)
  show ?thesis
    using Cons same other by (simp add: completeObjective_def Let_def some)
qed

lemma addObjective_filter:
  "filter (sameObjective k) (objectives (st (addObjective n now w))) =
     (if k = normalizedName n \<and> filter (sameObjective k) (objectives (st w)) = []
      then [\<lparr> obj_name = n, obj_completed = False, obj_score = 0, obj_timestamp = now \<rparr>]
      else filter (sameObjective k) (objectives (st w)))"
proof (cases "filter (sameObjective (normalizedName n)) (objectives (st w))")
  case Nil
  then have none: "find (sameObjective (normalizedName n)) (objectives (st w)) = None"
    by (simp add: find_as_filter)
  show ?thesis
    using Nil by (auto simp: addObjective_def Let_def none sameObjective_def)
next
  case (Cons e es)
  then have some: "find (sameObjective (normalizedName n)) (objectives (st w)) = Some e"
    by (simp add: find_as_filter)
  show ?thesis
    using Cons by (auto simp: addObjective_def Let_def some)
qed

lemma objectives_other_operations:
  "objectives (st (recordQuizScore n sc mx tq now w)) = objectives (st w)"
  "objectives (st (recordQuestionAnswer q c t now w)) = objectives (st w)"
  "objectives (st (updateTopicProgress n p now w)) = objectives (st w)"
  "objectives (st (markCompleted w)) = objectives (st w)"
  "objectives (st (setLessonId i w)) = objectives (st w)"
  "objectives (st (resetQuestions now w)) = objectives (st w)"
  by (simp_all add: recordQuizScore_def recordQuestionAnswer_def updateTopicProgress_def
        markCompleted_def setLessonId_def resetQuestions_def Let_def split: propval.splits)

lemma one_entry_applyCall:
  assumes "length (filter (sameObjective k) (objectives (st w))) \<le> 1"
  shows "length (filter (sameObjective k) (objectives (st (applyCall c w)))) \<le> 1"
  using assms
  by (cases c)
     (auto simp: objectives_other_operations completeObjective_filter addObjective_filter
        split: list.splits)

lemma one_entry_run:
  assumes "length (filter (sameObjective k) (objectives (st w))) \<le> 1"
  shows "length (filter (sameObjective k) (objectives (st (run calls w)))) \<le> 1"
  using assms
proof (induction calls arbitrary: w)
  case Nil
  then show ?case by (simp add: run_def)
next
  case (Cons c calls)
  from Cons.prems have "length (filter (sameObjective k) (objectives (st (applyCall c w)))) \<le> 1"
    by (rule one_entry_applyCall)
  then have "length (filter (sameObjective k)
      (objectives (st (run calls (applyCall c w))))) \<le> 1"
    by (rule Cons.IH)
  then show ?case by (simp add: run_def)
qed

lemma run_snoc: "run (calls @ [c]) w = applyCall c (run calls w)"
  by (simp add: run_def)

lemma completionScores_snoc:
  "completionScores k (calls @ [c]) =
     completionScores k calls @ (case completionOf k c of None \<Rightarrow> [] | Some sc \<Rightarrow> [sc])"
  by (induction calls) (simp_all add: completionScores_def split: option.splits)

lemma Max_snoc:
  assumes "xs \<noteq> []"
  shows "Max (set (xs @ [x :: real])) = max (Max (set xs)) x"
proof -
  have "set (xs @ [x]) = insert x (set xs)"
    by simp
  moreover have "Max (insert x (set xs)) = max x (Max (set xs))"
    using assms by (intro Max_insert) simp_all
  ultimately show ?thesis
    by (simp only: max.commute)
qed

lemma registeredFirst_snoc:
  "registeredFirst k (calls @ [c]) =
     (if list_ex (registers k) calls \<or> completionScores k calls \<noteq> []
      then registeredFirst k calls else registers k c)"
  by (induction calls) (auto simp: completionScores_def split: option.splits)

lemma registeredFirst_registers: "registeredFirst k calls \<Longrightarrow> list_ex (registers k) calls"
  by (induction calls) (auto split: if_splits)

text \<open>
  The entry of key \<open>k\<close> along a history: none while no call concerns \<open>k\<close>; the registered
  entry with score 0 while \<open>k\<close> is registered and not completed; afterwards one completed
  entry that holds the greatest completion score, or 0 if the registration's 0 is greater.
\<close>

lemma best_score_run:
  "(\<not> list_ex (registers k) calls \<and> completionScores k calls = [] \<longrightarrow>
      filter (sameObjective k) (objectives (st (run calls (startTracker title now)))) = []) \<and>
   (list_ex (registers k) calls \<and> completionScores k calls = [] \<longrightarrow>
      registeredFirst k calls \<and>
      (\<exists>e. filter (sameObjective k) (objectives (st (run calls (startTracker title now)))) = [e]
          \<and> obj_score e = 0)) \<and>
   (completionScores k calls \<noteq> [] \<longrightarrow>
      (\<exists>e. filter (sameObjective k) (objectives (st (run calls (startTracker title now)))) = [e]
          \<and> obj_completed e
          \<and> obj_score e = (if registeredFirst k calls
                            then max 0 (Max (set (completionScores k calls)))
                            else Max (set (completionScores k calls)))))"
proof (induction calls rule: rev_induct)
  case Nil
  then show ?case
    by (simp add: completionScores_def run_def startTracker_def initialState_def)
next
  case (snoc c calls)
  let ?objs = "objectives (st (run calls (startTracker title now)))"
  let ?objs' = "objectives (st (run (calls @ [c]) (startTracker title now)))"
  let ?scores = "completionScores k calls"
  note IH = snoc.IH
  show ?case
  proof (cases "completionOf k c")
    case None
    then have scores': "completionScores k (calls @ [c]) = ?scores"
      by (simp add: completionScores_snoc)
    show ?thesis
    proof (cases "registers k c")
      case False
      with None have "filter (sameObjective k) (objectives (st (applyCall c (run calls
          (startTracker title now))))) = filter (sameObjective k) ?objs"
        by (cases c)
           (auto simp: objectives_other_operations completeObjective_filter addObjective_filter
              split: if_splits)
      then have same: "filter (sameObjective k) ?objs' = filter (sameObjective k) ?objs"
        by (simp only: run_snoc)
      have reg': "list_ex (registers k) (calls @ [c]) = list_ex (registers k) calls"
        using False by simp
      have first': "registeredFirst k (calls @ [c]) = registeredFirst k calls"
        using False registeredFirst_registers [of k calls] by (auto simp: registeredFirst_snoc)
      from IH show ?thesis
        by (simp only: scores' same reg' first')
    next
      case True
      then obtain n t where cdef: "c = AddObjective n t" and key: "normalizedName n = k"
        by (cases c) auto
      have reg': "list_ex (registers k) (calls @ [c])"
        using True by simp
      show ?thesis
      proof (cases "?scores = []")
        case noscore: True
        show ?thesis
        proof (cases "list_ex (registers k) calls")
          case False
          with noscore IH have "filter (sameObjective k) ?objs = []" by simp
          then have "filter (sameObjective k) ?objs' =
              [\<lparr> obj_name = n, obj_completed = False, obj_score = 0, obj_timestamp = t \<rparr>]"
            using key by (simp add: run_snoc cdef addObjective_filter)
          moreover have "registeredFirst k (calls @ [c])"
            using False noscore True by (simp add: registeredFirst_snoc)
          ultimately show ?thesis
            using reg' noscore by (simp add: scores')
        next
          case reg: True
          with noscore IH obtain e where "registeredFirst k calls"
            and e: "filter (sameObjective k) ?objs = [e]" and "obj_score e = 0"
            by auto
          moreover have "filter (sameObjective k) ?objs' = [e]"
            using key e by (simp add: run_snoc cdef addObjective_filter)
          moreover have "registeredFirst k (calls @ [c]) = registeredFirst k calls"
            using reg by (simp add: registeredFirst_snoc)
          ultimately show ?thesis
            using reg' noscore by (simp add: scores')
        qed
      next
        case scored: False
        with IH obtain e where e: "filter (sameObjective k) ?objs = [e]"
          and compl: "obj_completed e"
          and best: "obj_score e = (if registeredFirst k calls
                            then max 0 (Max (set ?scores)) else Max (set ?scores))"
          by auto
        have "filter (sameObjective k) ?objs' = [e]"
          using key e by (simp add: run_snoc cdef addObjective_filter)
        moreover have "registeredFirst k (calls @ [c]) = registeredFirst k calls"
          using scored by (simp add: registeredFirst_snoc)
        ultimately show ?thesis
          using scored compl best by (simp add: scores')
      qed
    qed
  next
    case (Some sc)
    then obtain n t where cdef: "c = CompleteObjective n sc t" and key: "normalizedName n = k"
      by (cases c) (auto split: if_splits)
    from Some have scores': "completionScores k (calls @ [c]) = ?scores @ [sc]"
      by (simp add: completionScores_snoc)
    then have nonempty: "completionScores k (calls @ [c]) \<noteq> []"
      by simp
    have noreg_c: "\<not> registers k c"
      using cdef by simp
    have "\<exists>e. filter (sameObjective k) ?objs' = [e] \<and> obj_completed e \<and>
        obj_score e = (if registeredFirst k (calls @ [c])
                       then max 0 (Max (set (completionScores k (calls @ [c]))))
                       else Max (set (completionScores k (calls @ [c]))))"
    proof (cases "?scores = []")
      case noscore: True
      have single: "Max (set (completionScores k (calls @ [c]))) = sc"
        by (simp add: scores' noscore)
      show ?thesis
      proof (cases "list_ex (registers k) calls")
        case False
        with noscore IH have "filter (sameObjective k) ?objs = []" by simp
        then have "filter (sameObjective k) ?objs' =
            [\<lparr> obj_name = n, obj_completed = True, obj_score = sc, obj_timestamp = t \<rparr>]"
          using key by (simp add: run_snoc cdef completeObjective_filter)
        moreover have "\<not> registeredFirst k (calls @ [c])"
          using False noscore noreg_c by (simp add: registeredFirst_snoc)
        ultimately show ?thesis
          by (simp add: single)
      next
        case reg: True
        with noscore IH obtain e where rf: "registeredFirst k calls"
          and e: "filter (sameObjective k) ?objs = [e]" and zero: "obj_score e = 0"
          by auto
        let ?e' = "e\<lparr>obj_completed := True, obj_score := max (obj_score e) sc\<rparr>"
        have "filter (sameObjective k) ?objs' = [?e']"
          using key e by (simp add: run_snoc cdef completeObjective_filter)
        moreover have "registeredFirst k (calls @ [c])"
          using reg rf by (simp add: registeredFirst_snoc)
        moreover have "obj_score ?e' = max 0 sc"
          by (simp add: zero)
        ultimately show ?thesis
          by (simp add: single)
      qed
    next
      case scored: False
      with IH obtain e where e: "filter (sameObjective k) ?objs = [e]"
        and compl: "obj_completed e"
        and best: "obj_score e = (if registeredFirst k calls
                          then max 0 (Max (set ?scores)) else Max (set ?scores))"
        by auto
      let ?e' = "e\<lparr>obj_completed := True, obj_score := max (obj_score e) sc\<rparr>"
      have f': "filter (sameObjective k) ?objs' = [?e']"
        using key e by (simp add: run_snoc cdef completeObjective_filter)
      have first': "registeredFirst k (calls @ [c]) = registeredFirst k calls"
        using scored by (simp add: registeredFirst_snoc)
      have mx: "Max (set (completionScores k (calls @ [c]))) = max (Max (set ?scores)) sc"
        by (simp only: scores' Max_snoc [OF scored])
      have "obj_score ?e' = (if registeredFirst k calls
                             then max 0 (max (Max (set ?scores)) sc)
                             else max (Max (set ?scores)) sc)"
        by (simp add: best max.assoc)
      then have "obj_score ?e' = (if registeredFirst k (calls @ [c])
                       then max 0 (Max (set (completionScores k (calls @ [c]))))
                       else Max (set (completionScores k (calls @ [c]))))"
        by (simp only: first' mx)
      moreover have "obj_completed ?e'"
        by simp
      ultimately show ?thesis
        using f' by blast
    qed
    with nonempty show ?thesis by (simp only: simp_thms)
  qed
qed

text \<open>
  Claim C6. \<^verbatim>\<open>completeObjective\<close> compares names by their canonical form. After any
  history of calls on a fresh tracker there is at most one objective per canonical key; and
  when the history completes the key \<open>k\<close> at least once, the one entry of \<open>k\<close> is completed
  and holds the maximum of the scores of all completions of \<open>k\<close> (together with the 0 of
  the entry's registration, when \<^verbatim>\<open>addObjective\<close> had created the entry before the first
  completion). The witness is the example of the specification: \<open>''Ohm's Law''\<close> with 90,
  then \<open>''ohms law''\<close> with 95.
\<close>

theorem completeObjective_one_entry_best_score:
  "length (filter (sameObjective k) (objectives (st (run calls (startTracker title now))))) \<le> 1 \<and>
   (completionScores k calls \<noteq> [] \<longrightarrow>
      (\<exists>e. filter (sameObjective k) (objectives (st (run calls (startTracker title now)))) = [e] \<and>
           obj_completed e \<and>
           obj_score e = (if registeredFirst k calls
                          then max 0 (Max (set (completionScores k calls)))
                          else Max (set (completionScores k calls)))))"
proof (intro conjI)
  show "length (filter (sameObjective k)
      (objectives (st (run calls (startTracker title now))))) \<le> 1"
    by (rule one_entry_run) (simp add: startTracker_def initialState_def)
next
  from best_score_run [of k calls title now]
  show "completionScores k calls \<noteq> [] \<longrightarrow>
      (\<exists>e. filter (sameObjective k) (objectives (st (run calls (startTracker title now)))) = [e] \<and>
           obj_completed e \<and>
           obj_score e = (if registeredFirst k calls
                          then max 0 (Max (set (completionScores k calls)))
                          else Max (set (completionScores k calls))))"
    by blast
qed

theorem completeObjective_one_entry_best_score_witness:
  "normalizedName ''Ohm's Law'' = ''ohmslaw'' \<and> normalizedName ''ohms law'' = ''ohmslaw'' \<and>
   completionScores ''ohmslaw''
     [CompleteObjective ''Ohm's Law'' 90 1, CompleteObjective ''ohms law'' 95 2] = [90, 95] \<and>
   objectives (st (completeObjective ''ohms law'' 95 2
       (completeObjective ''Ohm's Law'' 90 1 (startTracker ''Lesson'' 0)))) =
     [\<lparr> obj_name = ''Ohm's Law'', obj_completed = True, obj_score = 95, obj_timestamp = 1 \<rparr>]"
proof -
  let ?calls = "[CompleteObjective ''Ohm's Law'' 90 1, CompleteObjective ''ohms law'' 95 2]"
  let ?w = "completeObjective ''ohms law'' 95 2
       (completeObjective ''Ohm's Law'' 90 1 (startTracker ''Lesson'' 0))"
  have n1: "normalizedName ''Ohm's Law'' = ''ohmslaw''"
    and n2: "normalizedName ''ohms law'' = ''ohmslaw''"
    by code_simp+
  have scores: "completionScores ''ohmslaw'' ?calls = [90, 95]"
    by (simp add: completionScores_def n1 n2)
  have first: "\<not> registeredFirst ''ohmslaw'' ?calls"
    by (simp add: n1)
  have r: "run ?calls (startTracker ''Lesson'' 0) = ?w"
    by (simp add: run_def)
  have names: "map obj_name (objectives (st ?w)) = [''Ohm's Law'']"
    and stamps: "map obj_timestamp (objectives (st ?w)) = [1]"
    by (simp_all add: completeObjective_def sameObjective_def n1 n2 eval_start)
  then obtain e0 where single: "objectives (st ?w) = [e0]"
    by (cases "objectives (st ?w)") auto
  with names stamps have e0: "obj_name e0 = ''Ohm's Law''" "obj_timestamp e0 = 1"
    by simp_all
  then have "sameObjective ''ohmslaw'' e0"
    by (simp add: sameObjective_def n1)
  with single have f: "filter (sameObjective ''ohmslaw'') (objectives (st ?w)) = [e0]"
    by simp
  from completeObjective_one_entry_best_score [of "''ohmslaw''" ?calls "''Lesson''" 0]
    scores first
  obtain e where "filter (sameObjective ''ohmslaw'')
      (objectives (st (run ?calls (startTracker ''Lesson'' 0)))) = [e]"
    and "obj_completed e" and "obj_score e = Max (set (completionScores ''ohmslaw'' ?calls))"
    by auto
  with f r scores have "obj_completed e0" and "obj_score e0 = 95"
    by simp_all
  with e0 have "e0 = \<lparr> obj_name = ''Ohm's Law'', obj_completed = True, obj_score = 95,
      obj_timestamp = 1 \<rparr>"
    by simp
  with single n1 n2 scores show ?thesis
    by simp
qed

subsection \<open>The snapshot of \<^verbatim>\<open>getState\<close>\<close>

lemma getState_eq:
  "getState h = (h\<lparr>allocated := allocated h @ [Object (trackerObject h)]\<rparr>,
                 VRef (length (allocated h) + 1))"
  by (simp add: getState_def alloc_def)

lemma objectAt_getState_old:
  assumes "objectAt h a \<noteq> None"
  shows "objectAt (fst (getState h)) a = objectAt h a"
  using assms by (auto simp: getState_eq objectAt_def nth_append split: if_splits)

lemma objectAt_getState_new:
  "objectAt (fst (getState h)) (length (allocated h) + 1) = Some (Object (trackerObject h))"
  by (simp add: getState_eq objectAt_def trackerAddr_def)

lemma objectAt_assignField_other:
  assumes "b \<noteq> a"
  shows "objectAt (assignField a k v h) b = objectAt h b"
proof (cases "a = trackerAddr")
  case True
  with assms show ?thesis
    by (simp add: assignField_def objectAt_def)
next
  case False
  with assms have "b = trackerAddr \<or> b - 1 \<noteq> a - 1"
    by (auto simp: trackerAddr_def)
  with False show ?thesis
    by (auto simp: assignField_def objectAt_def split: option.splits jsobject.splits)
qed

text \<open>
  Claim C8, as the code has it. \<^verbatim>\<open>getState\<close> returns a reference to a new object, never
  to \<^verbatim>\<open>trackerState\<close> itself, and changes no object that exists; the new object holds, field
  by field, the values of \<^verbatim>\<open>trackerState\<close>, references to the nested objects included (the
  copy is shallow); and an assignment to a field of the returned object changes neither
  \<^verbatim>\<open>trackerState\<close> nor any other object that existed before the call.
\<close>

theorem getState_returns_shallow_copy:
  "snd (getState h) = VRef (length (allocated h) + 1) \<and>
   length (allocated h) + 1 \<noteq> trackerAddr \<and>
   objectAt h (length (allocated h) + 1) = None \<and>
   trackerObject (fst (getState h)) = trackerObject h \<and>
   (objectAt h a \<noteq> None \<longrightarrow> objectAt (fst (getState h)) a = objectAt h a) \<and>
   readField (fst (getState h)) (length (allocated h) + 1) k = readField h trackerAddr k \<and>
   trackerObject (assignThrough (snd (getState h)) [] k v (fst (getState h))) = trackerObject h \<and>
   (objectAt h a \<noteq> None \<longrightarrow>
      objectAt (assignThrough (snd (getState h)) [] k v (fst (getState h))) a = objectAt h a)"
proof (intro conjI impI)
  show "snd (getState h) = VRef (length (allocated h) + 1)"
    by (simp add: getState_eq)
  show "length (allocated h) + 1 \<noteq> trackerAddr"
    by (simp add: trackerAddr_def)
  show "objectAt h (length (allocated h) + 1) = None"
    by (simp add: objectAt_def trackerAddr_def)
  show "trackerObject (fst (getState h)) = trackerObject h"
    by (simp add: getState_eq)
  have "readField (fst (getState h)) (length (allocated h) + 1) k =
      (case map_of (trackerObject h) k of Some v \<Rightarrow> v | None \<Rightarrow> VUndefined)"
    unfolding readField_def objectAt_getState_new by simp
  moreover have "readField h trackerAddr k =
      (case map_of (trackerObject h) k of Some v \<Rightarrow> v | None \<Rightarrow> VUndefined)"
    by (simp add: readField_def objectAt_def)
  ultimately
  show "readField (fst (getState h)) (length (allocated h) + 1) k = readField h trackerAddr k"
    by simp
  show "trackerObject (assignThrough (snd (getState h)) [] k v (fst (getState h))) =
      trackerObject h"
    by (simp add: assignThrough_def assignField_def getState_eq trackerAddr_def
        split: option.splits jsobject.splits)
next
  assume "objectAt h a \<noteq> None"
  then show "objectAt (fst (getState h)) a = objectAt h a"
    by (rule objectAt_getState_old)
next
  assume old: "objectAt h a \<noteq> None"
  then have "a \<noteq> length (allocated h) + 1"
    by (auto simp: objectAt_def trackerAddr_def split: if_splits)
  then have "objectAt (assignField (length (allocated h) + 1) k v (fst (getState h))) a =
      objectAt (fst (getState h)) a"
    by (rule objectAt_assignField_other)
  also have "\<dots> = objectAt h a"
    using old by (rule objectAt_getState_old)
  finally show "objectAt (assignThrough (snd (getState h)) [] k v (fst (getState h))) a =
      objectAt h a"
    by (simp add: assignThrough_def getState_eq)
qed

theorem getState_returns_shallow_copy_witness:
  "objectAt (initialHeap ''Lesson'' 0) 4 \<noteq> None \<and>
   snd (getState (initialHeap ''Lesson'' 0)) = VRef 6 \<and>
   readField (fst (getState (initialHeap ''Lesson'' 0))) 6 ''questionsAnswered'' = VRef 4 \<and>
   objectAt (assignThrough (snd (getState (initialHeap ''Lesson'' 0))) [] ''questionsAnswered''
       VNull (fst (getState (initialHeap ''Lesson'' 0)))) 4 =
     Some (Object [(''total'', VNumber (Num 0)), (''correct'', VNumber (Num 0)),
                   (''questions'', VRef 5)]) \<and>
   readField (assignThrough (snd (getState (initialHeap ''Lesson'' 0))) [] ''questionsAnswered''
       VNull (fst (getState (initialHeap ''Lesson'' 0)))) trackerAddr ''questionsAnswered'' =
     VRef 4"
proof -
  let ?h = "initialHeap ''Lesson'' 0"
  have len: "length (allocated ?h) + 1 = 6"
    by (simp add: initialHeap_def)
  have old: "objectAt ?h 4 = Some (Object [(''total'', VNumber (Num 0)),
      (''correct'', VNumber (Num 0)), (''questions'', VRef 5)])"
    by (simp add: initialHeap_def objectAt_def trackerAddr_def)
  then have ex: "objectAt ?h 4 \<noteq> None"
    by simp
  have field: "readField ?h trackerAddr ''questionsAnswered'' = VRef 4"
    by (simp add: readField_def objectAt_def initialHeap_def)
  note inst = getState_returns_shallow_copy [of ?h 4 "''questionsAnswered''" VNull]
  from inst have "snd (getState ?h) = VRef (length (allocated ?h) + 1)"
    by blast
  then have ref: "snd (getState ?h) = VRef 6"
    by (simp only: len)
  from inst have "readField (fst (getState ?h)) (length (allocated ?h) + 1)
      ''questionsAnswered'' = readField ?h trackerAddr ''questionsAnswered''"
    by blast
  then have copy: "readField (fst (getState ?h)) 6 ''questionsAnswered'' = VRef 4"
    by (simp only: len field)
  from inst ex
  have "objectAt (assignThrough (snd (getState ?h)) [] ''questionsAnswered'' VNull
      (fst (getState ?h))) 4 = objectAt ?h 4"
    by blast
  then have kept: "objectAt (assignThrough (snd (getState ?h)) [] ''questionsAnswered'' VNull
      (fst (getState ?h))) 4 = Some (Object [(''total'', VNumber (Num 0)),
      (''correct'', VNumber (Num 0)), (''questions'', VRef 5)])"
    by (simp only: old)
  from inst
  have "trackerObject (assignThrough (snd (getState ?h)) [] ''questionsAnswered'' VNull
      (fst (getState ?h))) = trackerObject ?h"
    by blast
  then have live: "readField (assignThrough (snd (getState ?h)) [] ''questionsAnswered'' VNull
      (fst (getState ?h))) trackerAddr ''questionsAnswered'' = VRef 4"
    using field by (simp add: readField_def objectAt_def)
  from ex ref copy kept live show ?thesis
    by (intro conjI)
qed

text \<open>
  The claim as the specification words it fails. The returned object's field
  \<^verbatim>\<open>questionsAnswered\<close> holds the reference the tracker's own field holds, so after
  \<^verbatim>\<open>CAETTracker.getState().questionsAnswered.total = 99\<close> the tracker reads 99 from
  \<^verbatim>\<open>trackerState.questionsAnswered.total\<close>; and after
  \<^verbatim>\<open>CAETTracker.getState().objectives.push(x)\<close> its \<^verbatim>\<open>objectives\<close> array holds \<open>x\<close>.
\<close>

theorem getState_snapshot_shares_nested_objects:
  "readPath (initialHeap ''Lesson'' 0) (VRef trackerAddr) [''questionsAnswered'', ''total''] =
     VNumber (Num 0) \<and>
   readPath (assignThrough (snd (getState (initialHeap ''Lesson'' 0))) [''questionsAnswered'']
        ''total'' (VNumber (Num 99)) (fst (getState (initialHeap ''Lesson'' 0))))
     (VRef trackerAddr) [''questionsAnswered'', ''total''] = VNumber (Num 99) \<and>
   readPath (initialHeap ''Lesson'' 0) (VRef trackerAddr) [''objectives''] = VRef 1 \<and>
   objectAt (initialHeap ''Lesson'' 0) 1 = Some (Array []) \<and>
   objectAt (pushThrough (snd (getState (initialHeap ''Lesson'' 0))) [''objectives'']
        (VString ''x'') (fst (getState (initialHeap ''Lesson'' 0)))) 1 =
     Some (Array [VString ''x''])"
  by code_simp

subsection \<open>The range of the score\<close>

lemma scrollInRange_updateScrollDepth:
  assumes "scrollInRange s"
  shows "scrollInRange (updateScrollDepth windowHeight documentHeight scrollTop s)"
proof -
  obtain x where x: "js_round (js_mul (js_div (Num scrollTop)
      (js_sub (Num documentHeight) (Num windowHeight))) (Num 100)) = x"
    by simp
  show ?thesis
    using assms
    by (cases x; cases "maxScrollDepth s")
       (auto simp: updateScrollDepth_def scrollInRange_def Let_def x split: if_splits)
qed

lemma quiz_sum_nonnegative:
  assumes "list_all (\<lambda>q. nonnegative (quiz_percentage q)) qs" and "nonnegative a"
  shows "nonnegative (foldl (\<lambda>sum q. js_add sum (quiz_percentage q)) a qs)"
  using assms by (induction qs arbitrary: a) (simp_all add: nonnegative_js_add)

lemma quizProgress_nonnegative:
  assumes "quizPercentagesNonnegative s"
  shows "nonnegative (quizProgress s)"
proof (cases "hasQuizzes s")
  case True
  from assms have "nonnegative (foldl (\<lambda>sum q. js_add sum (quiz_percentage q)) (Num 0)
      (map snd (quizScores s)))"
    unfolding quizPercentagesNonnegative_def by (intro quiz_sum_nonnegative) simp_all
  moreover from True have "0 < real (length (quizScores s))"
    by (simp add: hasQuizzes_def)
  ultimately have "nonnegative (avgQuizScore s)"
    unfolding avgQuizScore_def by (rule nonnegative_js_div)
  then have "nonnegative (js_mul (js_div (avgQuizScore s) (Num 100)) (Num 30))"
    by (intro nonnegative_js_mul nonnegative_js_div) simp_all
  with True show ?thesis
    by (simp add: quizProgress_def)
next
  case False
  show ?thesis
  proof (cases "hasQuestions s")
    case True
    then have "0 < real (q_total (questionsAnswered s))"
      by (simp add: hasQuestions_def)
    then have "nonnegative (js_mul (js_div (Num (real (q_correct (questionsAnswered s))))
        (Num (real (q_total (questionsAnswered s))))) (Num 100))"
      by (intro nonnegative_js_mul nonnegative_js_div) simp_all
    with True have "nonnegative (correctPercent s)"
      by (simp add: correctPercent_def hasQuestions_def)
    then have "nonnegative (js_mul (js_div (correctPercent s) (Num 100)) (Num 30))"
      by (intro nonnegative_js_mul nonnegative_js_div) simp_all
    with False True show ?thesis
      by (simp add: quizProgress_def)
  next
    case no: False
    with False show ?thesis
      by (simp add: quizProgress_def)
  qed
qed

lemma components_nonnegative:
  "nonnegative (timeProgress quiz s)"
  "nonnegative (interactionProgress quiz s)"
  "nonnegative (objectiveProgress s)"
  "scrollInRange s \<Longrightarrow> nonnegative (scrollProgress quiz s)"
proof -
  have "nonnegative (js_min (Num 100)
      (js_mul (js_div (Num (real (activeTime s))) (Num 30)) (Num w)))" if "0 < w" for w
    using that by (intro nonnegative_js_min nonnegative_js_mul nonnegative_js_div) simp_all
  from this [of 25] this [of 40] show "nonnegative (timeProgress quiz s)"
    by (simp add: timeProgress_def minActiveTime_def)
  have "nonnegative (js_min (Num 10) (js_mul (Num (real (interactions s))) (Num (1 / 2))))"
    by (intro nonnegative_js_min nonnegative_js_mul) simp_all
  then show "nonnegative (interactionProgress quiz s)"
    by (simp add: interactionProgress_def)
  show "nonnegative (objectiveProgress s)"
  proof (cases "hasObjectives s")
    case True
    then have "0 < real (length (objectives s))"
      by (simp add: hasObjectives_def)
    then have "nonnegative (js_mul (js_div (Num (real (completedObjectives s)))
        (Num (real (length (objectives s))))) (Num 15))"
      by (intro nonnegative_js_mul nonnegative_js_div) simp_all
    with True show ?thesis
      by (simp add: objectiveProgress_def)
  next
    case False
    then show ?thesis
      by (simp add: objectiveProgress_def)
  qed
  show "nonnegative (scrollProgress quiz s)" if "scrollInRange s"
  proof -
    from that have "nonnegative (maxScrollDepth s)"
      by (simp add: scrollInRange_def)
    then have "nonnegative (js_mul (js_div (maxScrollDepth s) (Num 100)) (Num w))"
      if "0 < w" for w
      using that by (intro nonnegative_js_mul nonnegative_js_div) simp_all
    from this [of 20] this [of 30] show ?thesis
      by (simp add: scrollProgress_def)
  qed
qed

lemma clamp_round_nonnegative:
  assumes "nonnegative x"
  shows "integerPercent (js_min (Num 100) (js_round x))"
proof (cases x)
  case (Num a)
  with assms have "0 \<le> \<lfloor>a + 1 / 2\<rfloor>" by simp
  with Num show ?thesis
    by simp
next
  case PosInf
  then show ?thesis by simp
next
  case NegInf
  with assms show ?thesis by simp
next
  case NaN
  with assms show ?thesis by simp
qed

text \<open>
  When the deepest scroll position is in its range and no stored quiz percentage is negative
  or \<open>NaN\<close>, the score is an integer between 0 and 100.
\<close>

lemma calculateProgress_in_range:
  assumes "scrollInRange s" and "quizPercentagesNonnegative s"
  shows "integerPercent (calculateProgress s)"
  unfolding calculateProgress_def Let_def
  by (intro clamp_round_nonnegative)
     (simp add: nonnegative_js_add components_nonnegative quizProgress_nonnegative assms)

lemma calculateProgress_in_range_witness:
  "scrollInRange (st (recordQuizScore ''Quiz'' 8 10 None 1 (startTracker ''Lesson'' 0))) \<and>
   quizPercentagesNonnegative (st (recordQuizScore ''Quiz'' 8 10 None 1 (startTracker ''Lesson'' 0))) \<and>
   calculateProgress (st (recordQuizScore ''Quiz'' 8 10 None 1 (startTracker ''Lesson'' 0))) = Num 39"
proof -
  have "quizPercentage 8 10 = Num 80"
    by (simp add: quizPercentage_def eval_double)
  then show ?thesis
    by (simp add: recordQuizScore_def quizImproves_def eval_start eval_scorer eval_double
        scrollInRange_def quizPercentagesNonnegative_def)
qed

end
